theory Spec2Isabelle
  imports Main "HOL-Library.Word" "HOL-Library.Multiset"
begin

unbundle bit_operations_syntax

section \<open>Shared vocabulary\<close>

text \<open>
  Go values of type \<open>error\<close>. The source distinguishes three kinds: the sentinel
  \<open>io.EOF\<close> (compared with \<open>==\<close>), errors that implement \<open>net.Error\<close> (the type
  assertion at conn.go:96, with the answer of their \<open>Timeout()\<close> method), and errors
  made by \<open>errors.New\<close> with a message. \<open>nil\<close> is \<open>None\<close> of \<open>error option\<close>.
\<close>

datatype error = io_EOF | net_Error bool string | errors_New string

text \<open>How a call ends: it returns, it panics, or it never returns.\<close>

datatype 'a outcome = Returns 'a | Panics | Blocks

type_synonym byte = "8 word"
type_synonym Op = "8 word"
type_synonym Time = nat

section \<open>Server side: package server, conn.go\<close>

subsection \<open>Packets (package protocol, used through its interface)\<close>

record Header =
  MajorVers :: byte
  MinorVers :: byte
  Length :: "16 word"
  ID :: "32 word"

record Operation =
  Opcode :: Op
  Payload :: "byte list"

record Packet =
  Header :: Header
  Operation :: Operation

text \<open>
  Modelled from the spec: \<open>Operation.Bytes\<close> of package protocol is not among the
  sources. The spec describes an operation as an opaque payload plus its declared byte
  length, carried in the 16-bit length field of the header.
\<close>

definition Bytes :: "Operation \<Rightarrow> 16 word" where
  "Bytes opn = word_of_nat (length (Payload opn))"

definition be16 :: "16 word \<Rightarrow> byte list" where
  "be16 w = [ucast (drop_bit 8 w), ucast w]"

definition be32 :: "32 word \<Rightarrow> byte list" where
  "be32 w = [ucast (drop_bit 24 w), ucast (drop_bit 16 w), ucast (drop_bit 8 w), ucast w]"

text \<open>Reading a 32-bit field back from its four bytes.\<close>

definition from_be32 :: "byte list \<Rightarrow> 32 word" where
  "from_be32 bs = push_bit 24 (ucast (bs ! 0)) OR push_bit 16 (ucast (bs ! 1)) OR
                  push_bit 8 (ucast (bs ! 2)) OR ucast (bs ! 3)"

text \<open>
  Modelled from the spec: \<open>Packet.MarshalBinary\<close> of package protocol is not among the
  sources. The spec gives the wire layout (major version, minor version, 16-bit payload
  length, 32-bit correlation ID, opcode, payload) and both the spec and the comment at
  conn.go:139 say that it never returns a non-nil error. Multi-byte fields are written
  most significant byte first.
\<close>

definition MarshalBinary :: "Packet \<Rightarrow> error + byte list" where
  "MarshalBinary pkt =
     Inr ([MajorVers (Header pkt), MinorVers (Header pkt)] @ be16 (Length (Header pkt)) @
          be32 (ID (Header pkt)) @ [Opcode (Operation pkt)] @ Payload (Operation pkt))"

subsection \<open>The transport (net.Conn)\<close>

text \<open>
  The socket is an external collaborator. What the network does on a call is an input
  of the model (an \<open>error option\<close>, a packet or an error, an \<open>io_write\<close>); the one thing
  the transport itself decides is that every call on a closed connection fails at once
  with the non-timeout network error "use of closed network connection".
\<close>

record transport =
  is_open :: bool
  read_deadline :: "Time option"
  written :: "byte list list"

datatype io_write = Written | WriteError error | WriteBlocked

definition errClosed :: error where
  "errClosed = net_Error False ''use of closed network connection''"

definition net_SetReadDeadline :: "error option \<Rightarrow> Time \<Rightarrow> transport \<Rightarrow> error option \<times> transport" where
  "net_SetReadDeadline env t tr =
     (if \<not> is_open tr then (Some errClosed, tr)
      else (case env of
              Some e \<Rightarrow> (Some e, tr)
            | None \<Rightarrow> (None, tr\<lparr>read_deadline := Some t\<rparr>)))"

definition ReadFrom :: "error + Packet \<Rightarrow> transport \<Rightarrow> error + Packet" where
  "ReadFrom env tr = (if \<not> is_open tr then Inl errClosed else env)"

definition net_Write :: "io_write \<Rightarrow> byte list \<Rightarrow> transport \<Rightarrow> io_write \<times> transport" where
  "net_Write env buf tr =
     (if \<not> is_open tr then (WriteError errClosed, tr)
      else (case env of
              Written \<Rightarrow> (Written, tr\<lparr>written := written tr @ [buf]\<rparr>)
            | WriteError e \<Rightarrow> (WriteError e, tr)
            | WriteBlocked \<Rightarrow> (WriteBlocked, tr)))"

definition net_Close :: "transport \<Rightarrow> transport" where
  "net_Close tr = tr\<lparr>is_open := False\<rparr>"

subsection \<open>Statistics (connStats, connEvent)\<close>

record connEvent =
  ev_time :: Time
  ev_id :: "32 word"
  ev_opcode :: Op

record connStats =
  spawnTime :: Time
  reads :: "64 word"
  writes :: "64 word"
  lastRead :: connEvent
  lastWrite :: connEvent
  lock :: bool

text \<open>
  The statements of a critical section on the statistics, one constructor per kind of
  statement of conn.go:115-120 and conn.go:154-159.
\<close>

datatype stats_stmt =
    Lock
  | Unlock
  | Incr_reads
  | Incr_writes
  | Set_lastRead_id "32 word"
  | Set_lastRead_time Time
  | Set_lastRead_opcode Op
  | Set_lastWrite_id "32 word"
  | Set_lastWrite_time Time
  | Set_lastWrite_opcode Op

fun stats_exec :: "connStats \<Rightarrow> stats_stmt \<Rightarrow> connStats" where
  "stats_exec s Lock = s\<lparr>lock := True\<rparr>"
| "stats_exec s Unlock = s\<lparr>lock := False\<rparr>"
| "stats_exec s Incr_reads = s\<lparr>reads := reads s + 1\<rparr>"
| "stats_exec s Incr_writes = s\<lparr>writes := writes s + 1\<rparr>"
| "stats_exec s (Set_lastRead_id i) = s\<lparr>lastRead := (lastRead s)\<lparr>ev_id := i\<rparr>\<rparr>"
| "stats_exec s (Set_lastRead_time t) = s\<lparr>lastRead := (lastRead s)\<lparr>ev_time := t\<rparr>\<rparr>"
| "stats_exec s (Set_lastRead_opcode c) = s\<lparr>lastRead := (lastRead s)\<lparr>ev_opcode := c\<rparr>\<rparr>"
| "stats_exec s (Set_lastWrite_id i) = s\<lparr>lastWrite := (lastWrite s)\<lparr>ev_id := i\<rparr>\<rparr>"
| "stats_exec s (Set_lastWrite_time t) = s\<lparr>lastWrite := (lastWrite s)\<lparr>ev_time := t\<rparr>\<rparr>"
| "stats_exec s (Set_lastWrite_opcode c) = s\<lparr>lastWrite := (lastWrite s)\<lparr>ev_opcode := c\<rparr>\<rparr>"

definition stats_run :: "stats_stmt list \<Rightarrow> connStats \<Rightarrow> connStats" where
  "stats_run stmts s = foldl stats_exec s stmts"

text \<open>
  The lock discipline of a statement list, given whether the mutex is held at its start:
  \<open>Lock\<close> only when it is free, every other statement only while it is held, and the
  mutex free again at the end.
\<close>

fun under_lock :: "bool \<Rightarrow> stats_stmt list \<Rightarrow> bool" where
  "under_lock held [] = (\<not> held)"
| "under_lock held (Lock # rest) = (\<not> held \<and> under_lock True rest)"
| "under_lock held (Unlock # rest) = (held \<and> under_lock False rest)"
| "under_lock held (_ # rest) = (held \<and> under_lock held rest)"

text \<open>
  \<open>connStats.String\<close> (conn.go:53-67): the fields it prints, in the order of the format
  string. It takes and releases the lock around the reads.
\<close>

type_synonym stats_string = "Time \<times> 64 word \<times> 32 word \<times> Time \<times> 64 word \<times> 32 word \<times> Time"

definition String :: "connStats \<Rightarrow> stats_string" where
  "String s =
     (spawnTime s, reads s, ev_id (lastRead s), ev_time (lastRead s),
      writes s, ev_id (lastWrite s), ev_time (lastWrite s))"

subsection \<open>The connection and the sinks it reports to\<close>

record conn =
  netConn :: transport
  name :: string
  timeout :: Time
  selector :: "Packet \<Rightarrow> nat"
  closed :: "32 word"
  serverClosing :: "32 word"
  stats :: connStats

record request =
  pkt :: Packet
  reqBegin :: Time
  connName :: string

text \<open>
  The struct \<open>response\<close> is declared outside conn.go; these are the fields that
  \<open>SubmitResult\<close> reads from it.
\<close>

record response =
  resp_id :: "32 word"
  resp_op :: Operation
  resp_reqOpcode :: Op
  resp_reqBegin :: Time
  resp_err :: byte

text \<open>A value of type \<open>interface{}\<close> handed to \<open>SubmitResult\<close>.\<close>

datatype iface = I_response response | I_other

text \<open>
  Calls to the logger of package cfssl/log and to the metrics helpers \<open>logRequest\<close>,
  \<open>logRequestTotalDuration\<close> and \<open>logConnFailure\<close>, in the order they are made.
\<close>

datatype log_msg =
    Server_closing string stats_string
  | Closed_by_client string stats_string
  | Encountered_error string error stats_string

datatype log_call = Debugf log_msg | Errorf log_msg

datatype metric =
    M_request Op
  | M_request_total_duration Op Time byte
  | M_conn_failure

record srv =
  cn :: conn
  logged :: "log_call list"
  metrics :: "metric list"

definition newConn :: "Time \<Rightarrow> string \<Rightarrow> transport \<Rightarrow> Time \<Rightarrow> (Packet \<Rightarrow> nat) \<Rightarrow> conn" where
  "newConn now nm c tmo sel =
     \<lparr>netConn = c, name = nm, timeout = tmo, selector = sel, closed = 0, serverClosing = 0,
      stats = \<lparr>spawnTime = now, reads = 0, writes = 0,
               lastRead = \<lparr>ev_time = 0, ev_id = 0, ev_opcode = 0\<rparr>,
               lastWrite = \<lparr>ev_time = 0, ev_id = 0, ev_opcode = 0\<rparr>,
               lock = False\<rparr>\<rparr>"

definition log_Debugf :: "log_msg \<Rightarrow> srv \<Rightarrow> srv" where
  "log_Debugf m s = s\<lparr>logged := logged s @ [Debugf m]\<rparr>"

definition log_Errorf :: "log_msg \<Rightarrow> srv \<Rightarrow> srv" where
  "log_Errorf m s = s\<lparr>logged := logged s @ [Errorf m]\<rparr>"

definition logConnFailure :: "srv \<Rightarrow> srv" where
  "logConnFailure s = s\<lparr>metrics := metrics s @ [M_conn_failure]\<rparr>"

definition logRequest :: "Op \<Rightarrow> srv \<Rightarrow> srv" where
  "logRequest c s = s\<lparr>metrics := metrics s @ [M_request c]\<rparr>"

definition logRequestTotalDuration :: "Op \<Rightarrow> Time \<Rightarrow> byte \<Rightarrow> srv \<Rightarrow> srv" where
  "logRequestTotalDuration c t e s = s\<lparr>metrics := metrics s @ [M_request_total_duration c t e]\<rparr>"

text \<open>The calls on \<open>c.conn\<close>, the transport of the connection.\<close>

definition conn_SetReadDeadline :: "error option \<Rightarrow> Time \<Rightarrow> srv \<Rightarrow> error option \<times> srv" where
  "conn_SetReadDeadline env t s =
     (case net_SetReadDeadline env t (netConn (cn s)) of
        (r, tr) \<Rightarrow> (r, s\<lparr>cn := (cn s)\<lparr>netConn := tr\<rparr>\<rparr>))"

definition conn_Write :: "io_write \<Rightarrow> byte list \<Rightarrow> srv \<Rightarrow> io_write \<times> srv" where
  "conn_Write env buf s =
     (case net_Write env buf (netConn (cn s)) of
        (r, tr) \<Rightarrow> (r, s\<lparr>cn := (cn s)\<lparr>netConn := tr\<rparr>\<rparr>))"

definition conn_Close :: "srv \<Rightarrow> srv" where
  "conn_Close s = s\<lparr>cn := (cn s)\<lparr>netConn := net_Close (netConn (cn s))\<rparr>\<rparr>"

definition StoreUint32_closed :: "32 word \<Rightarrow> srv \<Rightarrow> srv" where
  "StoreUint32_closed v s = s\<lparr>cn := (cn s)\<lparr>closed := v\<rparr>\<rparr>"

definition CompareAndSwapUint32_serverClosing :: "32 word \<Rightarrow> 32 word \<Rightarrow> srv \<Rightarrow> bool \<times> srv" where
  "CompareAndSwapUint32_serverClosing old new s =
     (if serverClosing (cn s) = old then (True, s\<lparr>cn := (cn s)\<lparr>serverClosing := new\<rparr>\<rparr>)
      else (False, s))"

definition IsAlive :: "srv \<Rightarrow> bool" where
  "IsAlive s = (closed (cn s) = 0)"

text \<open>conn.go:181-198.\<close>

definition LogConnErr :: "error option \<Rightarrow> srv \<Rightarrow> srv" where
  "LogConnErr err s =
     (if err \<noteq> None \<and> serverClosing (cn s) = 1 then s
      else (case err of
              None \<Rightarrow> log_Debugf (Server_closing (name (cn s)) (String (stats (cn s)))) s
            | Some e \<Rightarrow>
                if e = io_EOF then log_Debugf (Closed_by_client (name (cn s)) (String (stats (cn s)))) s
                else log_Errorf (Encountered_error (name (cn s)) e (String (stats (cn s))))
                       (logConnFailure s)))"

text \<open>conn.go:168-176.\<close>

definition Destroy :: "srv \<Rightarrow> srv" where
  "Destroy s =
     (let (swapped, s1) = CompareAndSwapUint32_serverClosing 0 1 s;
          closing = \<not> swapped
      in if closing then s1
         else StoreUint32_closed 1 (conn_Close (LogConnErr None s1)))"

text \<open>
  conn.go:82-123. The inputs are what the environment answers during the call: the two
  readings of the clock, the result of \<open>SetReadDeadline\<close> and the result of reading one
  packet. The result is \<open>None\<close> for \<open>(nil, nil, false)\<close> and the job with its pool for
  \<open>(req, pool, true)\<close>.
\<close>

record getjob_env =
  now_deadline :: Time
  deadline_result :: "error option"
  read_result :: "error + Packet"
  now_request :: Time

definition is_timeout :: "error \<Rightarrow> bool" where
  "is_timeout err = (case err of net_Error t _ \<Rightarrow> t | _ \<Rightarrow> False)"

text \<open>The critical section of conn.go:115-120.\<close>

definition GetJob_stats :: "Packet \<Rightarrow> request \<Rightarrow> stats_stmt list" where
  "GetJob_stats p req =
     [Lock,
      Incr_reads,
      Set_lastRead_id (ID (Header p)),
      Set_lastRead_time (reqBegin req),
      Set_lastRead_opcode (Opcode (Operation p)),
      Unlock]"

definition GetJob :: "getjob_env \<Rightarrow> srv \<Rightarrow> (request \<times> nat) option \<times> srv" where
  "GetJob env s =
     (case conn_SetReadDeadline (deadline_result env) (now_deadline env + timeout (cn s)) s of
        (Some err, s0) \<Rightarrow>
          (None, StoreUint32_closed 1 (conn_Close (LogConnErr (Some err) s0)))
      | (None, s0) \<Rightarrow>
          (case ReadFrom (read_result env) (netConn (cn s0)) of
             Inl err \<Rightarrow>
               if is_timeout err then (None, Destroy s0)
               else (None, StoreUint32_closed 1 (conn_Close (LogConnErr (Some err) s0)))
           | Inr p \<Rightarrow>
               (let s1 = logRequest (Opcode (Operation p)) s0;
                    req = \<lparr>pkt = p, reqBegin = now_request env, connName = name (cn s1)\<rparr>;
                    st = stats_run (GetJob_stats p req) (stats (cn s1));
                    s2 = s1\<lparr>cn := (cn s1)\<lparr>stats := st\<rparr>\<rparr>
                in (Some (req, selector (cn s2) p), s2))))"

text \<open>conn.go:125-162.\<close>

record submit_env =
  write_result :: io_write
  now_write :: Time

definition response_packet :: "response \<Rightarrow> Packet" where
  "response_packet resp =
     \<lparr>Header = \<lparr>MajorVers = 0x01, MinorVers = 0x00, Length = Bytes (resp_op resp), ID = resp_id resp\<rparr>,
      Operation = resp_op resp\<rparr>"

text \<open>The critical section of conn.go:154-159.\<close>

definition SubmitResult_stats :: "Packet \<Rightarrow> response \<Rightarrow> Time \<Rightarrow> stats_stmt list" where
  "SubmitResult_stats p resp now =
     [Lock,
      Incr_writes,
      Set_lastWrite_id (ID (Header p)),
      Set_lastWrite_time now,
      Set_lastWrite_opcode (resp_reqOpcode resp),
      Unlock]"

definition SubmitResult :: "submit_env \<Rightarrow> iface \<Rightarrow> srv \<Rightarrow> bool outcome \<times> srv" where
  "SubmitResult env result s =
     (case result of
        I_other \<Rightarrow> (Panics, s)
      | I_response resp \<Rightarrow>
          (let p = response_packet resp in
           case MarshalBinary p of
             Inl err \<Rightarrow> (Panics, s)
           | Inr buf \<Rightarrow>
               (case conn_Write (write_result env) buf s of
                  (WriteBlocked, s0) \<Rightarrow> (Blocks, s0)
                | (WriteError err, s0) \<Rightarrow>
                    (Returns False, StoreUint32_closed 1 (conn_Close (LogConnErr (Some err) s0)))
                | (Written, s0) \<Rightarrow>
                    (let s1 = logRequestTotalDuration (resp_reqOpcode resp) (resp_reqBegin resp) (resp_err resp) s0;
                         st = stats_run (SubmitResult_stats p resp (now_write env)) (stats (cn s1))
                     in (Returns True, s1\<lparr>cn := (cn s1)\<lparr>stats := st\<rparr>\<rparr>)))))"

fun is_server_closing :: "log_call \<Rightarrow> bool" where
  "is_server_closing (Debugf (Server_closing _ _)) = True"
| "is_server_closing _ = False"

fun is_error_level :: "log_call \<Rightarrow> bool" where
  "is_error_level (Errorf _) = True"
| "is_error_level (Debugf _) = False"

text \<open>A sequence of calls of \<open>SubmitResult\<close> on one connection, with what each returned.\<close>

fun SubmitResults :: "(submit_env \<times> iface) list \<Rightarrow> srv \<Rightarrow> bool outcome list \<times> srv" where
  "SubmitResults [] s = ([], s)"
| "SubmitResults ((env, result) # calls) s =
     (case SubmitResult env result s of
        (r, s1) \<Rightarrow> (case SubmitResults calls s1 of (rs, s2) \<Rightarrow> (r # rs, s2)))"

text \<open>
  The states between calls, when no \<open>Destroy\<close> is under way: once \<open>serverClosing\<close> has
  left 0, the shutdown that set it has also closed the transport and set \<open>closed\<close>.
\<close>

definition quiescent :: "srv \<Rightarrow> bool" where
  "quiescent s =
     (serverClosing (cn s) = 0 \<or>
      (serverClosing (cn s) = 1 \<and> closed (cn s) = 1 \<and> \<not> is_open (netConn (cn s))))"

definition error_lines :: "srv \<Rightarrow> log_call list" where
  "error_lines s = filter is_error_level (logged s)"

subsection \<open>Concurrent calls of Destroy\<close>

text \<open>
  \<open>Destroy\<close> again, one atomic action at a time, for callers that run concurrently: the
  compare-and-swap of conn.go:169, the call of \<open>LogConnErr(nil)\<close> at conn.go:173 (with a
  nil error it makes one call to the logger), \<open>Close\<close> at conn.go:174 and the atomic
  store at conn.go:175. A caller is at one of these four, or has returned: early, at
  conn.go:171, or at the end of the function.
\<close>

datatype destroy_pc = At_CAS | At_Log | At_Close | At_Store | Returned_early | Returned_end

fun Destroy_step :: "destroy_pc \<Rightarrow> srv \<Rightarrow> destroy_pc \<times> srv" where
  "Destroy_step At_CAS s =
     (let (swapped, s1) = CompareAndSwapUint32_serverClosing 0 1 s;
          closing = \<not> swapped
      in if closing then (Returned_early, s1) else (At_Log, s1))"
| "Destroy_step At_Log s = (At_Close, LogConnErr None s)"
| "Destroy_step At_Close s = (At_Store, conn_Close s)"
| "Destroy_step At_Store s = (Returned_end, StoreUint32_closed 1 s)"
| "Destroy_step Returned_early s = (Returned_early, s)"
| "Destroy_step Returned_end s = (Returned_end, s)"

text \<open>
  The shared connection with the program counters of the callers. A schedule is the
  list of the callers' indices in the order in which they take their next action.
\<close>

definition sched_step :: "srv \<times> destroy_pc list \<Rightarrow> nat \<Rightarrow> srv \<times> destroy_pc list" where
  "sched_step st i =
     (case st of (s, pcs) \<Rightarrow>
        if i < length pcs
        then (case Destroy_step (pcs ! i) s of (pc', s') \<Rightarrow> (s', pcs[i := pc']))
        else (s, pcs))"

definition run_Destroys :: "nat list \<Rightarrow> nat \<Rightarrow> srv \<Rightarrow> srv \<times> destroy_pc list" where
  "run_Destroys sched N s = foldl sched_step (s, replicate N At_CAS) sched"

definition returned :: "destroy_pc \<Rightarrow> bool" where
  "returned pc = (pc = Returned_early \<or> pc = Returned_end)"

text \<open>
  Where the shared state stands when the one caller that won the compare-and-swap from
  the state \<open>s0\<close> is at a given point of \<open>Destroy\<close>; and the invariant of every
  interleaving: nobody has passed the compare-and-swap yet, or exactly one caller has
  and all the others are before it or have returned early.
\<close>

definition winner_at :: "srv \<Rightarrow> destroy_pc \<Rightarrow> srv \<Rightarrow> bool" where
  "winner_at s0 pc s =
     (let s1 = s0\<lparr>cn := (cn s0)\<lparr>serverClosing := 1\<rparr>\<rparr> in
      pc = At_Log \<and> s = s1 \<or>
      pc = At_Close \<and> s = LogConnErr None s1 \<or>
      pc = At_Store \<and> s = conn_Close (LogConnErr None s1) \<or>
      pc = Returned_end \<and> s = StoreUint32_closed 1 (conn_Close (LogConnErr None s1)))"

definition destroy_inv :: "srv \<Rightarrow> srv \<times> destroy_pc list \<Rightarrow> bool" where
  "destroy_inv s0 st =
     (case st of (s, pcs) \<Rightarrow>
        (s = s0 \<and> (\<forall>i<length pcs. pcs ! i = At_CAS)) \<or>
        (\<exists>w<length pcs. winner_at s0 (pcs ! w) s \<and>
           (\<forall>i<length pcs. i \<noteq> w \<longrightarrow> pcs ! i = At_CAS \<or> pcs ! i = Returned_early)))"

text \<open>The number of "server closing connection" lines handed to the logger so far.\<close>

definition closing_lines :: "srv \<Rightarrow> nat" where
  "closing_lines s = length (filter is_server_closing (logged s))"

text \<open>
  The three statements with which \<open>GetJob\<close> (conn.go:85-87, conn.go:102-104) and
  \<open>SubmitResult\<close> (conn.go:146-148) give up a connection after the error \<open>e\<close>.
\<close>

definition fatal :: "error \<Rightarrow> srv \<Rightarrow> srv" where
  "fatal e s = StoreUint32_closed 1 (conn_Close (LogConnErr (Some e) s))"

subsection \<open>Concrete values for the examples\<close>

text \<open>
  A connection as \<open>newConn\<close> makes it, on an open transport, with an idle timeout of 30
  ticks; a request for a ping (opcode 0xF1) and the result a worker hands back for it,
  whose operation has the opcode 0xF0 of a response.
\<close>

definition conn0 :: srv where
  "conn0 = \<lparr>cn = newConn 0 ''client'' \<lparr>is_open = True, read_deadline = None, written = []\<rparr> 30 (\<lambda>_. 0),
            logged = [], metrics = []\<rparr>"

definition resp0 :: response where
  "resp0 = \<lparr>resp_id = 7, resp_op = \<lparr>Opcode = 0xF0, Payload = []\<rparr>, resp_reqOpcode = 0xF1,
            resp_reqBegin = 3, resp_err = 0\<rparr>"

definition env_write_ok :: submit_env where
  "env_write_ok = \<lparr>write_result = Written, now_write = 5\<rparr>"

definition env_write_stalls :: submit_env where
  "env_write_stalls = \<lparr>write_result = WriteBlocked, now_write = 5\<rparr>"

definition env_write_fails :: submit_env where
  "env_write_fails = \<lparr>write_result = WriteError (errors_New ''broken pipe''), now_write = 5\<rparr>"

definition env_read_timeout :: getjob_env where
  "env_read_timeout = \<lparr>now_deadline = 1, deadline_result = None,
                        read_result = Inl (net_Error True ''i/o timeout''), now_request = 31\<rparr>"

definition env_read_eof :: getjob_env where
  "env_read_eof = \<lparr>now_deadline = 1, deadline_result = None, read_result = Inl io_EOF, now_request = 2\<rparr>"

text \<open>
  The ping itself, with correlation ID 7, as \<open>GetJob\<close> reads it from the wire at time 3,
  and the request that \<open>GetJob\<close> makes of it.
\<close>

definition ping7 :: Packet where
  "ping7 = \<lparr>Header = \<lparr>MajorVers = 1, MinorVers = 0, Length = 0, ID = 7\<rparr>,
            Operation = \<lparr>Opcode = 0xF1, Payload = []\<rparr>\<rparr>"

definition env_read_ping :: getjob_env where
  "env_read_ping = \<lparr>now_deadline = 1, deadline_result = None, read_result = Inr ping7, now_request = 3\<rparr>"

definition req7 :: request where
  "req7 = \<lparr>pkt = ping7, reqBegin = 3, connName = ''client''\<rparr>"

section \<open>Client side: package client\<close>

subsection \<open>Slices of strings\<close>

text \<open>
  The registry \<open>allServers\<close> holds values of type \<open>[]string\<close>, and \<open>DialAny\<close> takes one
  of them into a local variable and rebuilds it with \<open>append\<close>. A Go slice is a view of
  a backing array that other slices may share: it is the array's address, the position of
  its first element in the array, its length and its capacity. The arrays live in a store
  from addresses to contents.
\<close>

record slice =
  sl_ptr :: nat
  sl_off :: nat
  sl_len :: nat
  sl_cap :: nat

definition nil_slice :: slice where
  "nil_slice = \<lparr>sl_ptr = 0, sl_off = 0, sl_len = 0, sl_cap = 0\<rparr>"

definition slice_elems :: "(nat \<Rightarrow> string list) \<Rightarrow> slice \<Rightarrow> string list" where
  "slice_elems h sl = take (sl_len sl) (drop (sl_off sl) (h (sl_ptr sl)))"

text \<open>\<open>s[i]\<close>, \<open>s[:n]\<close> and \<open>s[n:]\<close>; \<open>None\<close> is the run-time panic for an index out of range.\<close>

definition slice_index :: "(nat \<Rightarrow> string list) \<Rightarrow> slice \<Rightarrow> nat \<Rightarrow> string option" where
  "slice_index h sl i = (if i < sl_len sl then Some (h (sl_ptr sl) ! (sl_off sl + i)) else None)"

definition slice_to :: "slice \<Rightarrow> nat \<Rightarrow> slice option" where
  "slice_to sl n = (if n \<le> sl_cap sl then Some (sl\<lparr>sl_len := n\<rparr>) else None)"

definition slice_from :: "slice \<Rightarrow> nat \<Rightarrow> slice option" where
  "slice_from sl n =
     (if n \<le> sl_len sl
      then Some \<lparr>sl_ptr = sl_ptr sl, sl_off = sl_off sl + n, sl_len = sl_len sl - n, sl_cap = sl_cap sl - n\<rparr>
      else None)"

definition write_at :: "string list \<Rightarrow> nat \<Rightarrow> string list \<Rightarrow> string list" where
  "write_at arr i xs = take i arr @ xs @ drop (i + length xs) arr"

subsection \<open>The client, the heap and the environment\<close>

type_synonym SKI = "byte list"
type_synonym Digest = "byte list"
type_synonym ptr = nat

datatype tls_Config = TLS_Config

text \<open>
  \<open>gokeyless.Conn\<close> is declared outside the sources; the client reads its field
  \<open>IsOpen\<close>. \<open>inner\<close> is the TLS connection that \<open>NewConn\<close> wraps.
\<close>

record Conn =
  inner :: nat
  IsOpen :: bool

datatype client_log = Dialing string | Registering_key string SKI

datatype std_log = Couldnt_dial string error

record Client =
  Config :: "tls_Config option"
  Log :: "client_log list"
  conns :: "string \<rightharpoonup> ptr"
  allServers :: "SKI \<rightharpoonup> slice"

text \<open>
  The client together with what its methods reach: the backing arrays of the slices
  (\<open>arrays\<close>, with the next free address), the connection objects that the pointers in
  \<open>conns\<close> point to (\<open>objs\<close>, with the next free address), and the lines printed with
  the standard logger. The rest is the environment, which the model takes as given: the
  numbers that \<open>math/rand\<close> draws (the \<open>k\<close>-th call of \<open>rand.Intn(n)\<close> returns
  \<open>rand_src k mod n\<close>), what the \<open>k\<close>-th call of \<open>tls.Dial\<close> answers for an address, and
  the capacity the run time chooses when \<open>append\<close> has to allocate (the language asks
  only that it is large enough).
\<close>

record world =
  cl :: Client
  arrays :: "nat \<Rightarrow> string list"
  next_array :: nat
  objs :: "ptr \<Rightarrow> Conn"
  next_obj :: ptr
  stdlog :: "std_log list"
  rand_src :: "nat \<Rightarrow> nat"
  rand_pos :: nat
  dial_src :: "nat \<Rightarrow> string \<Rightarrow> error option"
  dial_pos :: nat
  growcap :: "nat \<Rightarrow> nat \<Rightarrow> nat"

text \<open>
  \<open>append(s, xs...)\<close>: in place when the capacity suffices, into a new array otherwise.
  The elements \<open>xs\<close> have been read before anything is written, as Go's \<open>append\<close> does
  when its arguments overlap.
\<close>

definition go_append :: "slice \<Rightarrow> string list \<Rightarrow> world \<Rightarrow> slice \<times> world" where
  "go_append sl xs w =
     (if sl_len sl + length xs \<le> sl_cap sl
      then (sl\<lparr>sl_len := sl_len sl + length xs\<rparr>,
            w\<lparr>arrays := (arrays w)(sl_ptr sl := write_at (arrays w (sl_ptr sl)) (sl_off sl + sl_len sl) xs)\<rparr>)
      else
        (let n = sl_len sl + length xs;
             newcap = max n (growcap w (sl_cap sl) n);
             p = next_array w;
             arr = slice_elems (arrays w) sl @ xs @ replicate (newcap - n) []
         in (\<lparr>sl_ptr = p, sl_off = 0, sl_len = n, sl_cap = newcap\<rparr>,
             w\<lparr>arrays := (arrays w)(p := arr), next_array := Suc p\<rparr>)))"

text \<open>\<open>rand.Intn(n)\<close> panics when \<open>n\<close> is not positive.\<close>

definition rand_Intn :: "nat \<Rightarrow> world \<Rightarrow> nat outcome \<times> world" where
  "rand_Intn n w =
     (if n = 0 then (Panics, w)
      else (Returns (rand_src w (rand_pos w) mod n), w\<lparr>rand_pos := Suc (rand_pos w)\<rparr>))"

definition tls_Dial :: "string \<Rightarrow> world \<Rightarrow> (error + nat) \<times> world" where
  "tls_Dial server w =
     (case dial_src w (dial_pos w) server of
        Some e \<Rightarrow> (Inl e, w\<lparr>dial_pos := Suc (dial_pos w)\<rparr>)
      | None \<Rightarrow> (Inr (dial_pos w), w\<lparr>dial_pos := Suc (dial_pos w)\<rparr>))"

text \<open>
  Modelled from the spec: \<open>gokeyless.NewConn\<close> is not among the sources. The spec has
  \<open>Dial\<close> cache the connection it has just established as a live, open connection.
\<close>

definition NewConn :: "nat \<Rightarrow> world \<Rightarrow> ptr \<times> world" where
  "NewConn tc w =
     (next_obj w,
      w\<lparr>objs := (objs w)(next_obj w := \<lparr>inner = tc, IsOpen = True\<rparr>), next_obj := Suc (next_obj w)\<rparr>)"

definition client_Log_Printf :: "client_log \<Rightarrow> world \<Rightarrow> world" where
  "client_Log_Printf l w = w\<lparr>cl := (cl w)\<lparr>Log := Log (cl w) @ [l]\<rparr>\<rparr>"

definition log_Printf :: "std_log \<Rightarrow> world \<Rightarrow> world" where
  "log_Printf l w = w\<lparr>stdlog := stdlog w @ [l]\<rparr>"

subsection \<open>Dial\<close>

text \<open>Lines 76-83 of the client file (conn.go:274-281): dialling and caching.\<close>

definition Dial_new :: "string \<Rightarrow> world \<Rightarrow> (error + ptr) \<times> world" where
  "Dial_new server w =
     (let w1 = client_Log_Printf (Dialing server) w in
      case tls_Dial server w1 of
        (Inl err, w2) \<Rightarrow> (Inl err, w2)
      | (Inr tc, w2) \<Rightarrow>
          (case NewConn tc w2 of
             (p, w3) \<Rightarrow>
               (let w4 = w3\<lparr>cl := (cl w3)\<lparr>conns := (conns (cl w3))(server \<mapsto> p)\<rparr>\<rparr>
                in (case conns (cl w4) server of Some q \<Rightarrow> (Inr q, w4) | None \<Rightarrow> (Inr p, w4)))))"

text \<open>conn.go:263-282.\<close>

definition Dial :: "string \<Rightarrow> world \<Rightarrow> (error + ptr) \<times> world" where
  "Dial server w =
     (if Config (cl w) = None
      then (Inl (errors_New ''gokeyless/client: TLS client has not yet been initialized with certificate and keyserver CA''), w)
      else (case conns (cl w) server of
              Some conn \<Rightarrow>
                if IsOpen (objs w conn) then (Inr conn, w)
                else Dial_new server (w\<lparr>cl := (cl w)\<lparr>conns := (conns (cl w))(server := None)\<rparr>\<rparr>)
            | None \<Rightarrow> Dial_new server w))"

subsection \<open>DialAny\<close>

definition servers_of :: "SKI \<Rightarrow> world \<Rightarrow> slice" where
  "servers_of ski w = (case allServers (cl w) ski of Some sl \<Rightarrow> sl | None \<Rightarrow> nil_slice)"

text \<open>conn.go:291-296: the cached connections of the servers, in the order of the servers.\<close>

fun existing_conns :: "(string \<rightharpoonup> ptr) \<Rightarrow> string list \<Rightarrow> ptr list" where
  "existing_conns m [] = []"
| "existing_conns m (server # rest) =
     (case m server of
        Some conn \<Rightarrow> conn # existing_conns m rest
      | None \<Rightarrow> existing_conns m rest)"

text \<open>conn.go:310, \<open>append(servers[:n], servers[n+1:]...)\<close>.\<close>

definition remove_at :: "slice \<Rightarrow> nat \<Rightarrow> world \<Rightarrow> (slice \<times> world) option" where
  "remove_at servers n w =
     (case slice_to servers n of
        None \<Rightarrow> None
      | Some front \<Rightarrow>
          (case slice_from servers (n + 1) of
             None \<Rightarrow> None
           | Some back \<Rightarrow> Some (go_append front (slice_elems (arrays w) back) w)))"

text \<open>conn.go:303-312, the loop over the local slice \<open>servers\<close>.\<close>

function dial_loop :: "slice \<Rightarrow> world \<Rightarrow> (error + ptr) outcome \<times> world" where
  "dial_loop servers w =
     (if sl_len servers > 0 then
        (case rand_Intn (sl_len servers) w of
           (Returns n, w1) \<Rightarrow>
             (case slice_index (arrays w1) servers n of
                None \<Rightarrow> (Panics, w1)
              | Some server \<Rightarrow>
                  (case Dial server w1 of
                     (Inr conn, w2) \<Rightarrow> (Returns (Inr conn), w2)
                   | (Inl err, w2) \<Rightarrow>
                       (case remove_at servers n (log_Printf (Couldnt_dial server err) w2) of
                          None \<Rightarrow> (Panics, log_Printf (Couldnt_dial server err) w2)
                        | Some (servers', w3) \<Rightarrow> dial_loop servers' w3)))
         | (Panics, w1) \<Rightarrow> (Panics, w1)
         | (Blocks, w1) \<Rightarrow> (Blocks, w1))
      else (Returns (Inl (errors_New ''couldn't dial any of the servers given'')), w))"
  by pat_completeness auto
termination
proof (relation "measure (\<lambda>(servers, w). sl_len servers)")
  show "wf (measure (\<lambda>(servers, w). sl_len servers))" by simp
next
  fix servers servers' :: slice and w w1 w2 w3 :: world and r n server err
    and next_call :: "slice \<times> world"
  assume pos: "0 < sl_len servers"
    and rnd: "(r, w1) = rand_Intn (sl_len servers) w" "r = Returns n"
    and rem: "remove_at servers n (log_Printf (Couldnt_dial server err) w2) = Some next_call"
      "(servers', w3) = next_call"
  have n: "n < sl_len servers"
    using pos rnd by (auto simp: rand_Intn_def split: if_splits)
  have "sl_len servers' \<le> n + (sl_len servers - (n + 1))"
    using rem n
    by (auto simp: remove_at_def slice_to_def slice_from_def go_append_def slice_elems_def Let_def
        split: if_splits option.splits)
  then show "((servers', w3), servers, w) \<in> measure (\<lambda>(servers, w). sl_len servers)"
    using n by simp
qed

declare dial_loop.simps [simp del]

text \<open>conn.go:285-313.\<close>

definition DialAny :: "SKI \<Rightarrow> world \<Rightarrow> (error + ptr) outcome \<times> world" where
  "DialAny ski w =
     (let servers = servers_of ski w in
      if sl_len servers = 0 then (Returns (Inl (errors_New ''no servers given'')), w)
      else
        (let existing = existing_conns (conns (cl w)) (slice_elems (arrays w) servers) in
         if length existing > 0 then
           (case rand_Intn (length existing) w of
              (Returns n, w1) \<Rightarrow>
                if n < length existing then (Returns (Inr (existing ! n)), w1) else (Panics, w1)
            | (Panics, w1) \<Rightarrow> (Panics, w1)
            | (Blocks, w1) \<Rightarrow> (Blocks, w1))
         else dial_loop servers w))"

subsection \<open>Registering keys\<close>

text \<open>conn.go:316-319.\<close>

definition registerSKI :: "string \<Rightarrow> SKI \<Rightarrow> world \<Rightarrow> world" where
  "registerSKI server ski w =
     (let w1 = client_Log_Printf (Registering_key server ski) w in
      case go_append (servers_of ski w1) [server] w1 of
        (sl, w2) \<Rightarrow> w2\<lparr>cl := (cl w2)\<lparr>allServers := (allServers (cl w2))(ski \<mapsto> sl)\<rparr>\<rparr>)"

text \<open>
  The handle that \<open>RegisterPublicKey\<close> returns. Its field \<open>client\<close> is a pointer to the
  client the method was called on; a \<open>world\<close> has one client.
\<close>

datatype client_ptr = The_client

record 'pub PrivateKey =
  public :: 'pub
  ski :: SKI
  digest :: Digest
  client :: client_ptr

text \<open>
  conn.go:322-337. \<open>gokeyless.GetSKI\<close> and \<open>gokeyless.GetDigest\<close> are declared outside
  the sources and are parameters here: the first returns a fingerprint or an error, the
  second a digest together with an error or nil, as a Go function with two results does.
\<close>

definition RegisterPublicKey ::
  "('pub \<Rightarrow> error + SKI) \<Rightarrow> ('pub \<Rightarrow> Digest \<times> error option) \<Rightarrow> string \<Rightarrow> 'pub \<Rightarrow> world \<Rightarrow>
   (error + 'pub PrivateKey) \<times> world" where
  "RegisterPublicKey GetSKI GetDigest server pub w =
     (case GetSKI pub of
        Inl err \<Rightarrow> (Inl err, w)
      | Inr k \<Rightarrow>
          (let w1 = registerSKI server k w;
               (d, _) = GetDigest pub
           in (Inr \<lparr>public = pub, ski = k, digest = d, client = The_client\<rparr>, w1)))"

subsection \<open>Concrete values for the examples of the client side\<close>

text \<open>
  A client as \<open>NewClient\<close> makes it, in a world where no server can be reached and
  \<open>rand.Intn\<close> always returns 0; the same with every server reachable; a fingerprint; and
  the client after registering the servers \<open>a:1\<close> and \<open>b:1\<close> for that fingerprint.
\<close>

definition world0 :: world where
  "world0 =
     \<lparr>cl = \<lparr>Config = Some TLS_Config, Log = [], conns = Map.empty, allServers = Map.empty\<rparr>,
      arrays = (\<lambda>_. []), next_array = 0,
      objs = (\<lambda>_. \<lparr>inner = 0, IsOpen = False\<rparr>), next_obj = 0,
      stdlog = [],
      rand_src = (\<lambda>_. 0), rand_pos = 0,
      dial_src = (\<lambda>_ _. Some (errors_New ''connection refused'')), dial_pos = 0,
      growcap = (\<lambda>old n. 2 * old)\<rparr>"

definition world_up :: world where
  "world_up = world0\<lparr>dial_src := (\<lambda>_ _. None)\<rparr>"

definition keyF :: SKI where
  "keyF = [0xAB, 0xCD]"

definition world_ab :: world where
  "world_ab = registerSKI ''b:1'' keyF (registerSKI ''a:1'' keyF world0)"

text \<open>
  What the owner of a connection does when the connection breaks (outside the sources):
  it clears \<open>IsOpen\<close>.
\<close>

definition conn_breaks :: "ptr \<Rightarrow> world \<Rightarrow> world" where
  "conn_breaks p w = w\<lparr>objs := (objs w)(p := (objs w p)\<lparr>IsOpen := False\<rparr>)\<rparr>"

text \<open>The registered servers of a fingerprint, as the registry shows them.\<close>

definition candidates :: "SKI \<Rightarrow> world \<Rightarrow> string list" where
  "candidates k w = slice_elems (arrays w) (servers_of k w)"

text \<open>
  A client that has dialled both servers, after which the connection to \<open>b:1\<close> has
  broken; here \<open>rand.Intn\<close> draws 1.
\<close>

definition world_cached :: world where
  "world_cached =
     conn_breaks 1 (snd (Dial ''b:1'' (snd (Dial ''a:1''
       (world_ab\<lparr>dial_src := (\<lambda>_ _. None), rand_src := (\<lambda>_. 1)\<rparr>)))))"

text \<open>
  A slice lies within its backing array. Go keeps this for every slice; it is a
  condition on the states of the model.
\<close>

definition wf_slice :: "(nat \<Rightarrow> string list) \<Rightarrow> slice \<Rightarrow> bool" where
  "wf_slice h sl = (sl_len sl \<le> sl_cap sl \<and> sl_off sl + sl_cap sl \<le> length (h (sl_ptr sl)))"


fun failed_server :: "std_log \<Rightarrow> string" where
  "failed_server (Couldnt_dial server err) = server"


text \<open>
  The zero value of a digest (32 zero bytes), and stand-ins for the two helpers of
  package gokeyless: a fingerprint function that succeeds and a digest function that
  fails, returning the zero digest with its error.
\<close>

definition nilDigest :: Digest where
  "nilDigest = replicate 32 0"

definition GetSKI_ok :: "string \<Rightarrow> error + SKI" where
  "GetSKI_ok pub = Inr keyF"

definition GetDigest_fails :: "string \<Rightarrow> Digest \<times> error option" where
  "GetDigest_fails pub = (nilDigest, Some (errors_New ''can't compute digest for non-RSA public key''))"

text \<open>
  Every slice of the registry lies within its array, and its array has been allocated.
  The client starts with this and each of its methods keeps it.
\<close>

definition wf_registry :: "world \<Rightarrow> bool" where
  "wf_registry w =
     (\<forall>k sl. allServers (cl w) k = Some sl \<longrightarrow> wf_slice (arrays w) sl \<and> sl_ptr sl < next_array w)"

section \<open>Properties of the server side\<close>

subsection \<open>Destroy\<close>

lemma Destroy_won: "serverClosing (cn s) = 0 \<Longrightarrow>
   Destroy s = StoreUint32_closed 1 (conn_Close (LogConnErr None (s\<lparr>cn := (cn s)\<lparr>serverClosing := 1\<rparr>\<rparr>)))"
  by (simp add: Destroy_def CompareAndSwapUint32_serverClosing_def)

lemma Destroy_lost: "serverClosing (cn s) \<noteq> 0 \<Longrightarrow> Destroy s = s"
  by (simp add: Destroy_def CompareAndSwapUint32_serverClosing_def)

lemma serverClosing_LogConnErr [simp]: "serverClosing (cn (LogConnErr e s)) = serverClosing (cn s)"
  by (simp add: LogConnErr_def log_Debugf_def log_Errorf_def logConnFailure_def split: option.splits)

lemma serverClosing_conn_Close [simp]: "serverClosing (cn (conn_Close s)) = serverClosing (cn s)"
  by (simp add: conn_Close_def)

lemma serverClosing_Store [simp]: "serverClosing (cn (StoreUint32_closed v s)) = serverClosing (cn s)"
  by (simp add: StoreUint32_closed_def)

lemma winner_at_closing: "winner_at s0 pc s \<Longrightarrow> serverClosing (cn s) = 1"
  by (auto simp: winner_at_def Let_def)

lemma winner_step: "winner_at s0 pc s \<Longrightarrow> Destroy_step pc s = (pc', s') \<Longrightarrow> winner_at s0 pc' s'"
  by (auto simp: winner_at_def Let_def)

lemma loser_step: "serverClosing (cn s) = 1 \<Longrightarrow> pc = At_CAS \<or> pc = Returned_early \<Longrightarrow>
   Destroy_step pc s = (Returned_early, s)"
  by (auto simp: CompareAndSwapUint32_serverClosing_def)

lemma first_step: "serverClosing (cn s0) = 0 \<Longrightarrow> Destroy_step At_CAS s0 = (pc', s') \<Longrightarrow> winner_at s0 pc' s'"
  by (auto simp: winner_at_def Let_def CompareAndSwapUint32_serverClosing_def)

lemma inv_step:
  assumes "serverClosing (cn s0) = 0" "destroy_inv s0 st"
  shows "destroy_inv s0 (sched_step st i)"
proof (cases st)
  case (Pair s pcs)
  show ?thesis
  proof (cases "i < length pcs")
    case False
    with Pair assms show ?thesis by (simp add: sched_step_def)
  next
    case True
    obtain pc' s' where st: "Destroy_step (pcs ! i) s = (pc', s')" by force
    have ss: "sched_step st i = (s', pcs[i := pc'])" using Pair True st by (simp add: sched_step_def)
    from assms(2) Pair consider
      (fresh) "s = s0" "\<forall>i<length pcs. pcs ! i = At_CAS"
      | (won) w where "w < length pcs" "winner_at s0 (pcs ! w) s"
           "\<forall>i<length pcs. i \<noteq> w \<longrightarrow> pcs ! i = At_CAS \<or> pcs ! i = Returned_early"
      by (auto simp: destroy_inv_def)
    then show ?thesis
    proof cases
      case fresh
      then have "winner_at s0 pc' s'" using first_step[OF assms(1)] st True by auto
      then show ?thesis unfolding ss destroy_inv_def using True fresh
        by (auto simp: nth_list_update intro!: exI[of _ i])
    next
      case won
      show ?thesis
      proof (cases "i = w")
        case True
        then have "winner_at s0 pc' s'" using winner_step won st by blast
        then show ?thesis unfolding ss destroy_inv_def using True won
          by (auto simp: nth_list_update intro!: exI[of _ w])
      next
        case False
        have "pcs ! i = At_CAS \<or> pcs ! i = Returned_early" using won False \<open>i < length pcs\<close> by blast
        then have "pc' = Returned_early" "s' = s"
          using loser_step[OF winner_at_closing[OF won(2)]] st by auto
        then show ?thesis unfolding ss destroy_inv_def using False won \<open>i < length pcs\<close>
          by (auto simp: nth_list_update intro!: exI[of _ w])
      qed
    qed
  qed
qed

lemma inv_run:
  "serverClosing (cn s0) = 0 \<Longrightarrow> destroy_inv s0 st \<Longrightarrow> destroy_inv s0 (foldl sched_step st sched)"
  by (induction sched arbitrary: st) (auto simp: inv_step)

lemma inv_init: "destroy_inv s0 (s0, replicate N At_CAS)"
  by (simp add: destroy_inv_def)

lemma length_sched_step: "length (snd (sched_step st i)) = length (snd st)"
  by (cases st) (auto simp: sched_step_def split: prod.splits)

lemma length_run: "length (snd (foldl sched_step st sched)) = length (snd st)"
  by (induction sched arbitrary: st) (auto simp: length_sched_step)

lemma count_list_unique:
  "w < length xs \<Longrightarrow> xs ! w = x \<Longrightarrow> \<forall>i<length xs. i \<noteq> w \<longrightarrow> xs ! i \<noteq> x \<Longrightarrow> count_list xs x = 1"
proof (induction xs arbitrary: w)
  case Nil
  then show ?case by simp
next
  case (Cons a xs)
  show ?case
  proof (cases w)
    case 0
    have "x \<notin> set xs"
    proof
      assume "x \<in> set xs"
      then obtain j where "j < length xs" "xs ! j = x" by (auto simp: in_set_conv_nth)
      with Cons.prems(3) 0 show False by (auto dest: spec[of _ "Suc j"])
    qed
    with 0 Cons.prems show ?thesis by (simp add: count_list_0_iff)
  next
    case (Suc v)
    have "a \<noteq> x" using Cons.prems(3) Suc by (auto dest: spec[of _ 0])
    moreover have "\<forall>i<length xs. i \<noteq> v \<longrightarrow> xs ! i \<noteq> x"
    proof (intro allI impI)
      fix i assume "i < length xs" "i \<noteq> v"
      then have "Suc i < length (a # xs)" "Suc i \<noteq> w" using Suc by auto
      with Cons.prems(3) have "(a # xs) ! Suc i \<noteq> x" by blast
      then show "xs ! i \<noteq> x" by simp
    qed
    then have "count_list xs x = 1"
      using Cons.IH[of v] Cons.prems(1,2) Suc by auto
    ultimately show ?thesis by simp
  qed
qed

lemma count_list_all_but:
  "w < length xs \<Longrightarrow> xs ! w \<noteq> x \<Longrightarrow> \<forall>i<length xs. i \<noteq> w \<longrightarrow> xs ! i = x \<Longrightarrow>
   count_list xs x = length xs - 1"
proof (induction xs arbitrary: w)
  case Nil
  then show ?case by simp
next
  case (Cons a xs)
  show ?case
  proof (cases w)
    case 0
    have "\<forall>y\<in>set xs. y = x"
    proof
      fix y assume "y \<in> set xs"
      then obtain j where j: "j < length xs" "xs ! j = y" by (auto simp: in_set_conv_nth)
      then have "Suc j < length (a # xs)" "Suc j \<noteq> w" using 0 by auto
      with Cons.prems(3) have "(a # xs) ! Suc j = x" by blast
      with j show "y = x" by simp
    qed
    then have "count_list xs x = length xs"
      by (induction xs) auto
    with 0 Cons.prems show ?thesis by simp
  next
    case (Suc v)
    have a: "a = x" using Cons.prems(3) Suc by (auto dest: spec[of _ 0])
    have "\<forall>i<length xs. i \<noteq> v \<longrightarrow> xs ! i = x"
    proof (intro allI impI)
      fix i assume "i < length xs" "i \<noteq> v"
      then have "Suc i < length (a # xs)" "Suc i \<noteq> w" using Suc by auto
      with Cons.prems(3) have "(a # xs) ! Suc i = x" by blast
      then show "xs ! i = x" by simp
    qed
    then have "count_list xs x = length xs - 1"
      using Cons.IH[of v] Cons.prems(1,2) Suc by auto
    moreover have "0 < length xs" using Cons.prems(1) Suc by auto
    ultimately show ?thesis using a by simp
  qed
qed

lemma Destroy_won_effects:
  assumes "serverClosing (cn s) = 0"
  shows "closing_lines (Destroy s) = Suc (closing_lines s)"
    and "\<not> is_open (netConn (cn (Destroy s)))"
    and "\<not> IsAlive (Destroy s)"
    and "serverClosing (cn (Destroy s)) = 1"
  using assms
  by (simp_all add: Destroy_won closing_lines_def LogConnErr_def log_Debugf_def conn_Close_def
      StoreUint32_closed_def net_Close_def IsAlive_def)

text \<open>
  Claim C1. Let any number \<open>N \<ge> 1\<close> of callers run \<open>Destroy\<close> concurrently on a connection
  whose \<open>serverClosing\<close> flag is still 0, under any schedule of their atomic actions
  that lets all of them return. Then exactly one caller returns at the end of the
  function (it won the compare-and-swap and did the shutdown) and the other \<open>N - 1\<close>
  return early; the connection ends in the state that one single call of \<open>Destroy\<close>
  leaves: one more "server closing" line logged, the transport closed, \<open>IsAlive\<close> false.
\<close>

theorem Destroy_concurrent:
  assumes fresh: "serverClosing (cn s) = 0"
    and N: "0 < N"
    and run: "run_Destroys sched N s = (s', pcs')"
    and fin: "list_all returned pcs'"
  shows "length pcs' = N \<and> count_list pcs' Returned_end = 1 \<and>
         count_list pcs' Returned_early = N - 1 \<and>
         s' = Destroy s \<and>
         closing_lines s' = Suc (closing_lines s) \<and>
         \<not> is_open (netConn (cn s')) \<and> \<not> IsAlive s'"
proof -
  have inv: "destroy_inv s (s', pcs')"
    using inv_run[OF fresh inv_init, of N sched] run by (simp add: run_Destroys_def)
  have len: "length pcs' = N"
    using length_run[of "(s, replicate N At_CAS)" sched] run by (simp add: run_Destroys_def)
  have allret: "\<And>i. i < length pcs' \<Longrightarrow> returned (pcs' ! i)"
    using fin by (simp add: list_all_length)
  from inv consider
      (none) "s' = s" "\<forall>i<length pcs'. pcs' ! i = At_CAS"
    | (won) w where "w < length pcs'" "winner_at s (pcs' ! w) s'"
         "\<forall>i<length pcs'. i \<noteq> w \<longrightarrow> pcs' ! i = At_CAS \<or> pcs' ! i = Returned_early"
    by (auto simp: destroy_inv_def)
  then show ?thesis
  proof cases
    case none
    with allret[of 0] len N show ?thesis by (auto simp: returned_def)
  next
    case won
    have w: "pcs' ! w = Returned_end" "s' = Destroy s"
      using won(2) allret[OF won(1)] fresh by (auto simp: winner_at_def Let_def returned_def Destroy_won)
    have others: "\<forall>i<length pcs'. i \<noteq> w \<longrightarrow> pcs' ! i = Returned_early"
    proof (intro allI impI)
      fix i assume i: "i < length pcs'" "i \<noteq> w"
      then have "pcs' ! i = At_CAS \<or> pcs' ! i = Returned_early" using won(3) by blast
      moreover have "returned (pcs' ! i)" using allret i by blast
      ultimately show "pcs' ! i = Returned_early" by (auto simp: returned_def)
    qed
    have c1: "count_list pcs' Returned_end = 1"
      using count_list_unique[OF won(1) w(1)] others by auto
    have c2: "count_list pcs' Returned_early = length pcs' - 1"
      using count_list_all_but[OF won(1), of Returned_early] w(1) others by auto
    show ?thesis using w c1 c2 len Destroy_won_effects[OF fresh] by simp
  qed
qed

text \<open>
  Two callers on a new connection: caller 0 wins the compare-and-swap, caller 1 loses
  it before caller 0 has logged anything, then caller 0 finishes.
\<close>

theorem Destroy_concurrent_witness:
  "serverClosing (cn conn0) = 0 \<and> (0::nat) < 2 \<and>
   list_all returned (snd (run_Destroys [0, 1, 0, 0, 0] 2 conn0)) \<and>
   snd (run_Destroys [0, 1, 0, 0, 0] 2 conn0) = [Returned_end, Returned_early] \<and>
   fst (run_Destroys [0, 1, 0, 0, 0] 2 conn0) = Destroy conn0 \<and>
   closing_lines (fst (run_Destroys [0, 1, 0, 0, 0] 2 conn0)) = Suc (closing_lines conn0) \<and>
   \<not> IsAlive (fst (run_Destroys [0, 1, 0, 0, 0] 2 conn0))"
proof -
  have h1: "serverClosing (cn conn0) = 0" by (simp add: conn0_def newConn_def)
  have pcs: "snd (run_Destroys [0, 1, 0, 0, 0] 2 conn0) = [Returned_end, Returned_early]"
    by (simp add: run_Destroys_def sched_step_def conn0_def newConn_def
        CompareAndSwapUint32_serverClosing_def numeral_2_eq_2)
  have h3: "list_all returned (snd (run_Destroys [0, 1, 0, 0, 0] 2 conn0))"
    unfolding pcs by (simp add: returned_def)
  have run: "run_Destroys [0, 1, 0, 0, 0] 2 conn0 =
      (fst (run_Destroys [0, 1, 0, 0, 0] 2 conn0), snd (run_Destroys [0, 1, 0, 0, 0] 2 conn0))"
    by simp
  have h2: "(0::nat) < 2" by simp
  note c = Destroy_concurrent[OF h1 h2 run h3]
  from c have c4: "fst (run_Destroys [0, 1, 0, 0, 0] 2 conn0) = Destroy conn0" by blast
  from c have c5: "closing_lines (fst (run_Destroys [0, 1, 0, 0, 0] 2 conn0)) = Suc (closing_lines conn0)"
    by blast
  from c have c7: "\<not> IsAlive (fst (run_Destroys [0, 1, 0, 0, 0] 2 conn0))" by blast
  show ?thesis
    using h1 h2 h3 pcs c4 c5 c7 by blast
qed

subsection \<open>What the building blocks change\<close>

lemma quiescent_newConn: "quiescent \<lparr>cn = newConn now nm c tmo sel, logged = l, metrics = m\<rparr>"
  by (simp add: quiescent_def newConn_def)

lemma netConn_LogConnErr [simp]: "netConn (cn (LogConnErr e s)) = netConn (cn s)"
  by (simp add: LogConnErr_def log_Debugf_def log_Errorf_def logConnFailure_def split: option.splits)

lemma closed_LogConnErr [simp]: "closed (cn (LogConnErr e s)) = closed (cn s)"
  by (simp add: LogConnErr_def log_Debugf_def log_Errorf_def logConnFailure_def split: option.splits)

lemma stats_LogConnErr [simp]: "stats (cn (LogConnErr e s)) = stats (cn s)"
  by (simp add: LogConnErr_def log_Debugf_def log_Errorf_def logConnFailure_def split: option.splits)

lemma logged_LogConnErr:
  "logged (LogConnErr err s) = logged s @
     (case err of
        None \<Rightarrow> [Debugf (Server_closing (name (cn s)) (String (stats (cn s))))]
      | Some e \<Rightarrow>
          if serverClosing (cn s) = 1 then []
          else if e = io_EOF then [Debugf (Closed_by_client (name (cn s)) (String (stats (cn s))))]
          else [Errorf (Encountered_error (name (cn s)) e (String (stats (cn s))))])"
  by (simp add: LogConnErr_def log_Debugf_def log_Errorf_def logConnFailure_def split: option.splits)

lemma metrics_LogConnErr:
  "metrics (LogConnErr err s) = metrics s @
     (case err of
        None \<Rightarrow> []
      | Some e \<Rightarrow> if serverClosing (cn s) = 1 \<or> e = io_EOF then [] else [M_conn_failure])"
  by (simp add: LogConnErr_def log_Debugf_def log_Errorf_def logConnFailure_def split: option.splits)

lemma fatal_effects:
  "\<not> is_open (netConn (cn (fatal e s)))"
  "\<not> IsAlive (fatal e s)"
  "closed (cn (fatal e s)) = 1"
  "serverClosing (cn (fatal e s)) = serverClosing (cn s)"
  "stats (cn (fatal e s)) = stats (cn s)"
  "logged (fatal e s) = logged (LogConnErr (Some e) s)"
  "metrics (fatal e s) = metrics (LogConnErr (Some e) s)"
  by (simp_all add: fatal_def StoreUint32_closed_def conn_Close_def net_Close_def IsAlive_def)

lemma Destroy_cases:
  "Destroy s = (if serverClosing (cn s) = 0
                then StoreUint32_closed 1 (conn_Close (LogConnErr None (s\<lparr>cn := (cn s)\<lparr>serverClosing := 1\<rparr>\<rparr>)))
                else s)"
  by (simp add: Destroy_def CompareAndSwapUint32_serverClosing_def)

lemma Destroy_effects:
  "error_lines (Destroy s) = error_lines s"
  "quiescent s \<Longrightarrow> \<not> is_open (netConn (cn (Destroy s)))"
  "quiescent s \<Longrightarrow> \<not> IsAlive (Destroy s)"
  "quiescent s \<Longrightarrow> quiescent (Destroy s)"
  "quiescent s \<Longrightarrow> is_open (netConn (cn s)) \<Longrightarrow> closing_lines (Destroy s) = Suc (closing_lines s)"
  by (auto simp: Destroy_cases error_lines_def closing_lines_def quiescent_def logged_LogConnErr
      StoreUint32_closed_def conn_Close_def net_Close_def IsAlive_def)

lemma quiescent_fatal: "quiescent s \<Longrightarrow> quiescent (fatal e s)"
  using fatal_effects[of e s] by (auto simp: quiescent_def)

lemma SetReadDeadline_ok:
  "is_open (netConn (cn s)) \<Longrightarrow>
   conn_SetReadDeadline None t s = (None, s\<lparr>cn := (cn s)\<lparr>netConn := (netConn (cn s))\<lparr>read_deadline := Some t\<rparr>\<rparr>\<rparr>)"
  by (simp add: conn_SetReadDeadline_def net_SetReadDeadline_def)

subsection \<open>SubmitResult\<close>

lemma Write_closed:
  "\<not> is_open (netConn (cn s)) \<Longrightarrow> conn_Write env buf s = (WriteError errClosed, s)"
  by (simp add: conn_Write_def net_Write_def)

lemma Write_open:
  "is_open (netConn (cn s)) \<Longrightarrow>
   conn_Write env buf s =
     (env, case env of
             Written \<Rightarrow> s\<lparr>cn := (cn s)\<lparr>netConn := (netConn (cn s))\<lparr>written := written (netConn (cn s)) @ [buf]\<rparr>\<rparr>\<rparr>
           | _ \<Rightarrow> s)"
  by (simp add: conn_Write_def net_Write_def split: io_write.splits)

lemma Write_error_state: "conn_Write env buf s = (WriteError e, s0) \<Longrightarrow> s0 = s"
  by (cases "is_open (netConn (cn s))") (auto simp: Write_closed Write_open split: io_write.splits)

lemma SubmitResult_failed:
  assumes "MarshalBinary (response_packet resp) = Inr buf"
    and "fst (conn_Write (write_result env) buf s) = WriteError e"
  shows "SubmitResult env (I_response resp) s = (Returns False, fatal e s)"
proof -
  obtain s0 where w: "conn_Write (write_result env) buf s = (WriteError e, s0)"
    using assms(2) by (cases "conn_Write (write_result env) buf s") auto
  then have "s0 = s" by (rule Write_error_state)
  with w assms(1) show ?thesis by (simp add: SubmitResult_def fatal_def)
qed

lemma SubmitResult_closed:
  assumes "\<not> is_open (netConn (cn s))"
  shows "SubmitResult env (I_response resp) s = (Returns False, fatal errClosed s)"
  using assms SubmitResult_failed[of resp _ env s errClosed]
  by (simp add: MarshalBinary_def Write_closed)

lemma stats_run_write:
  "stats_run (SubmitResult_stats p resp now) st =
     st\<lparr>writes := writes st + 1,
        lastWrite := \<lparr>ev_time = now, ev_id = ID (Header p), ev_opcode = resp_reqOpcode resp\<rparr>,
        lock := False\<rparr>"
  by (simp add: stats_run_def SubmitResult_stats_def)

lemma SubmitResult_written:
  assumes "is_open (netConn (cn s))" "write_result env = Written"
    and "MarshalBinary (response_packet resp) = Inr buf"
  shows "SubmitResult env (I_response resp) s =
       (Returns True,
        s\<lparr>cn := (cn s)\<lparr>netConn := (netConn (cn s))\<lparr>written := written (netConn (cn s)) @ [buf]\<rparr>,
                      stats := stats_run (SubmitResult_stats (response_packet resp) resp (now_write env)) (stats (cn s))\<rparr>,
          metrics := metrics s @ [M_request_total_duration (resp_reqOpcode resp) (resp_reqBegin resp) (resp_err resp)]\<rparr>)"
  using assms by (simp add: SubmitResult_def Write_open Let_def logRequestTotalDuration_def)

subsection \<open>GetJob\<close>

text \<open>
  Claim C6, as amended. Let the transport be open, let setting the read deadline succeed
  and let reading the packet end with the error \<open>e\<close>. \<open>GetJob\<close> returns
  \<open>(nil, nil, false)\<close>. If \<open>e\<close> is a network timeout, the connection is left as one call
  of \<open>Destroy\<close> leaves it and nothing is logged at error level; between calls (no
  \<open>Destroy\<close> under way) that call logs one "server closing" line, closes the transport
  and makes \<open>IsAlive\<close> false. Every other error closes the transport and makes
  \<open>IsAlive\<close> false, but it is logged at error level (and counted as a connection
  failure) only when it is not \<open>io.EOF\<close> and \<open>serverClosing\<close> is not set: \<open>io.EOF\<close> is
  logged at debug level as "closed by client", and with \<open>serverClosing\<close> set nothing is
  logged.
\<close>

theorem GetJob_read_error:
  assumes op: "is_open (netConn (cn s))"
    and dl: "deadline_result env = None"
    and rd: "read_result env = Inl e"
    and run: "GetJob env s = (job, s')"
  shows "job = None \<and>
    (is_timeout e \<longrightarrow>
       s' = Destroy (snd (conn_SetReadDeadline None (now_deadline env + timeout (cn s)) s)) \<and>
       error_lines s' = error_lines s \<and>
       (quiescent s \<longrightarrow>
          \<not> IsAlive s' \<and> \<not> is_open (netConn (cn s')) \<and> closing_lines s' = Suc (closing_lines s))) \<and>
    (\<not> is_timeout e \<longrightarrow>
       \<not> IsAlive s' \<and> \<not> is_open (netConn (cn s')) \<and>
       logged s' = logged s @
         (if serverClosing (cn s) = 1 then []
          else if e = io_EOF then [Debugf (Closed_by_client (name (cn s)) (String (stats (cn s))))]
          else [Errorf (Encountered_error (name (cn s)) e (String (stats (cn s))))]) \<and>
       metrics s' = metrics s @
         (if serverClosing (cn s) = 1 \<or> e = io_EOF then [] else [M_conn_failure]))"
proof -
  let ?s0 = "s\<lparr>cn := (cn s)\<lparr>netConn := (netConn (cn s))\<lparr>read_deadline := Some (now_deadline env + timeout (cn s))\<rparr>\<rparr>\<rparr>"
  have sd: "conn_SetReadDeadline None (now_deadline env + timeout (cn s)) s = (None, ?s0)"
    using op by (rule SetReadDeadline_ok)
  have rf: "ReadFrom (read_result env) (netConn (cn ?s0)) = Inl e"
    using op rd by (simp add: ReadFrom_def)
  have g: "GetJob env s = (None, if is_timeout e then Destroy ?s0 else fatal e ?s0)"
    using sd rf dl by (simp add: GetJob_def fatal_def)
  have q: "quiescent s \<Longrightarrow> quiescent ?s0" by (simp add: quiescent_def)
  have c: "closing_lines ?s0 = closing_lines s" "error_lines ?s0 = error_lines s"
    by (simp_all add: closing_lines_def error_lines_def)
  show ?thesis
  proof (cases "is_timeout e")
    case True
    then have "job = None" "s' = Destroy ?s0" using g run by auto
    then show ?thesis using True sd Destroy_effects[of ?s0] q c op by auto
  next
    case False
    then have "job = None" "s' = fatal e ?s0" using g run by auto
    then show ?thesis using False fatal_effects[of e ?s0]
      by (simp add: logged_LogConnErr metrics_LogConnErr)
  qed
qed

lemma conn0_open: "is_open (netConn (cn conn0))" "quiescent conn0" "serverClosing (cn conn0) = 0"
  by (simp_all add: conn0_def newConn_def quiescent_def)

text \<open>The idle timeout on a new connection.\<close>

theorem GetJob_read_error_witness:
  "is_open (netConn (cn conn0)) \<and> deadline_result env_read_timeout = None \<and>
   read_result env_read_timeout = Inl (net_Error True ''i/o timeout'') \<and>
   is_timeout (net_Error True ''i/o timeout'') \<and> quiescent conn0 \<and>
   fst (GetJob env_read_timeout conn0) = None \<and>
   \<not> IsAlive (snd (GetJob env_read_timeout conn0)) \<and>
   error_lines (snd (GetJob env_read_timeout conn0)) = error_lines conn0 \<and>
   closing_lines (snd (GetJob env_read_timeout conn0)) = Suc (closing_lines conn0)"
proof -
  have h1: "is_open (netConn (cn conn0))" by (simp add: conn0_def newConn_def)
  have h2: "deadline_result env_read_timeout = None" by (simp add: env_read_timeout_def)
  have h3: "read_result env_read_timeout = Inl (net_Error True ''i/o timeout'')"
    by (simp add: env_read_timeout_def)
  have h4: "GetJob env_read_timeout conn0 =
      (fst (GetJob env_read_timeout conn0), snd (GetJob env_read_timeout conn0))" by simp
  have t: "is_timeout (net_Error True ''i/o timeout'')" by (simp add: is_timeout_def)
  have q: "quiescent conn0" by (simp add: conn0_def newConn_def quiescent_def)
  note c = GetJob_read_error[OF h1 h2 h3 h4]
  from c t q show ?thesis using h1 h2 h3 by blast
qed

text \<open>
  Claim C6 as stated fails when the client closes the stream: the read ends with
  \<open>io.EOF\<close>, which is not a timeout, and the only line logged is at debug level.
\<close>

theorem GetJob_eof_counterexample:
  "is_open (netConn (cn conn0)) \<and> read_result env_read_eof = Inl io_EOF \<and> \<not> is_timeout io_EOF \<and>
   fst (GetJob env_read_eof conn0) = None \<and>
   logged (snd (GetJob env_read_eof conn0)) =
     [Debugf (Closed_by_client ''client'' (0, 0, 0, 0, 0, 0, 0))] \<and>
   error_lines (snd (GetJob env_read_eof conn0)) = []"
  by (simp add: GetJob_def conn0_def env_read_eof_def newConn_def conn_SetReadDeadline_def
      net_SetReadDeadline_def ReadFrom_def is_timeout_def StoreUint32_closed_def conn_Close_def
      LogConnErr_def log_Debugf_def String_def error_lines_def)

subsection \<open>SubmitResult: the outcome of the write\<close>

text \<open>
  Claim C7, as amended. Let \<open>SubmitResult\<close> be called with a Result, and let \<open>buf\<close> be its
  serialized packet. If the write of \<open>buf\<close> fails with the error \<open>e\<close>, the call returns
  false, the transport is closed and \<open>IsAlive\<close> is false; the error is handed to
  \<open>LogConnErr\<close>, which logs it unless \<open>serverClosing\<close> is set (then nothing is logged).
  If the write succeeds, the call returns true and has run the critical section of
  conn.go:154-159, every statement of it under the statistics lock: the write counter is
  one higher, the last-write record holds the time of the write, the Result's correlation
  ID and the opcode of the request, and the lock is free again.
\<close>

theorem SubmitResult_write:
  assumes m: "MarshalBinary (response_packet resp) = Inr buf"
    and run: "SubmitResult env (I_response resp) s = (r, s')"
  shows
   "(\<forall>e. fst (conn_Write (write_result env) buf s) = WriteError e \<longrightarrow>
       r = Returns False \<and> \<not> is_open (netConn (cn s')) \<and> \<not> IsAlive s' \<and>
       logged s' = logged s @
         (if serverClosing (cn s) = 1 then []
          else if e = io_EOF then [Debugf (Closed_by_client (name (cn s)) (String (stats (cn s))))]
          else [Errorf (Encountered_error (name (cn s)) e (String (stats (cn s))))])) \<and>
    (fst (conn_Write (write_result env) buf s) = Written \<longrightarrow>
       r = Returns True \<and>
       stats (cn s') = stats_run (SubmitResult_stats (response_packet resp) resp (now_write env)) (stats (cn s)) \<and>
       under_lock False (SubmitResult_stats (response_packet resp) resp (now_write env)) \<and>
       writes (stats (cn s')) = writes (stats (cn s)) + 1 \<and>
       lastWrite (stats (cn s')) =
         \<lparr>ev_time = now_write env, ev_id = resp_id resp, ev_opcode = resp_reqOpcode resp\<rparr> \<and>
       \<not> lock (stats (cn s')) \<and>
       IsAlive s' = IsAlive s \<and> logged s' = logged s)"
proof (intro conjI allI impI)
  fix e assume w: "fst (conn_Write (write_result env) buf s) = WriteError e"
  have s': "r = Returns False" "s' = fatal e s"
    using SubmitResult_failed[OF m w] run by auto
  show "r = Returns False" by (rule s')
  show "\<not> is_open (netConn (cn s'))" "\<not> IsAlive s'" using s' fatal_effects[of e s] by auto
  show "logged s' = logged s @
         (if serverClosing (cn s) = 1 then []
          else if e = io_EOF then [Debugf (Closed_by_client (name (cn s)) (String (stats (cn s))))]
          else [Errorf (Encountered_error (name (cn s)) e (String (stats (cn s))))])"
    using s' fatal_effects[of e s] by (simp add: logged_LogConnErr)
next
  assume w: "fst (conn_Write (write_result env) buf s) = Written"
  have op: "is_open (netConn (cn s))"
    using w by (cases "is_open (netConn (cn s))") (auto simp: Write_closed)
  then have wr: "write_result env = Written" using w by (simp add: Write_open)
  note sr = SubmitResult_written[OF op wr m]
  from sr run show "r = Returns True" by simp
  from sr run show st: "stats (cn s') =
      stats_run (SubmitResult_stats (response_packet resp) resp (now_write env)) (stats (cn s))"
    by auto
  show "under_lock False (SubmitResult_stats (response_packet resp) resp (now_write env))"
    by (simp add: SubmitResult_stats_def)
  show "writes (stats (cn s')) = writes (stats (cn s)) + 1"
    unfolding st stats_run_write by simp
  show "lastWrite (stats (cn s')) =
         \<lparr>ev_time = now_write env, ev_id = resp_id resp, ev_opcode = resp_reqOpcode resp\<rparr>"
    unfolding st stats_run_write by (simp add: response_packet_def)
  show "\<not> lock (stats (cn s'))"
    unfolding st stats_run_write by simp
  from sr run show "IsAlive s' = IsAlive s" by (auto simp: IsAlive_def)
  from sr run show "logged s' = logged s" by auto
qed

text \<open>A successful write on a new connection.\<close>

lemma marshal_resp0: "MarshalBinary (response_packet resp0) = Inr [1, 0, 0, 0, 0, 0, 0, 7, 0xF0]"
  by (simp add: MarshalBinary_def response_packet_def resp0_def be16_def be32_def Bytes_def)

theorem SubmitResult_write_witness:
  "MarshalBinary (response_packet resp0) = Inr [1, 0, 0, 0, 0, 0, 0, 7, 0xF0] \<and>
   fst (conn_Write (write_result env_write_ok) [1, 0, 0, 0, 0, 0, 0, 7, 0xF0] conn0) = Written \<and>
   fst (SubmitResult env_write_ok (I_response resp0) conn0) = Returns True \<and>
   writes (stats (cn (snd (SubmitResult env_write_ok (I_response resp0) conn0)))) = 1 \<and>
   lastWrite (stats (cn (snd (SubmitResult env_write_ok (I_response resp0) conn0)))) =
     \<lparr>ev_time = 5, ev_id = 7, ev_opcode = 0xF1\<rparr>"
proof -
  have w: "fst (conn_Write (write_result env_write_ok) [1, 0, 0, 0, 0, 0, 0, 7, 0xF0] conn0) = Written"
    by (simp add: conn_Write_def net_Write_def env_write_ok_def conn0_def newConn_def)
  have run: "SubmitResult env_write_ok (I_response resp0) conn0 =
      (fst (SubmitResult env_write_ok (I_response resp0) conn0),
       snd (SubmitResult env_write_ok (I_response resp0) conn0))" by simp
  have z: "writes (stats (cn conn0)) = 0" "now_write env_write_ok = 5" "resp_id resp0 = 7"
    "resp_reqOpcode resp0 = 0xF1"
    by (simp_all add: conn0_def newConn_def env_write_ok_def resp0_def)
  note c = SubmitResult_write[OF marshal_resp0 run, THEN conjunct2, rule_format, OF w]
  from c have r: "fst (SubmitResult env_write_ok (I_response resp0) conn0) = Returns True" by blast
  from c have "writes (stats (cn (snd (SubmitResult env_write_ok (I_response resp0) conn0)))) =
      writes (stats (cn conn0)) + 1" by blast
  then have w1: "writes (stats (cn (snd (SubmitResult env_write_ok (I_response resp0) conn0)))) = 1"
    by (simp add: z)
  from c have "lastWrite (stats (cn (snd (SubmitResult env_write_ok (I_response resp0) conn0)))) =
     \<lparr>ev_time = now_write env_write_ok, ev_id = resp_id resp0, ev_opcode = resp_reqOpcode resp0\<rparr>"
    by blast
  then have l1: "lastWrite (stats (cn (snd (SubmitResult env_write_ok (I_response resp0) conn0)))) =
     \<lparr>ev_time = 5, ev_id = 7, ev_opcode = 0xF1\<rparr>" by (simp add: z)
  from r w1 l1 show ?thesis using marshal_resp0 w by blast
qed

text \<open>
  Claim C7 as stated fails on a connection that \<open>Destroy\<close> has shut down: the write
  fails and no line is logged for it.
\<close>

theorem SubmitResult_suppressed_counterexample:
  "fst (conn_Write (write_result env_write_ok) [1, 0, 0, 0, 0, 0, 0, 7, 0xF0] (Destroy conn0)) =
     WriteError errClosed \<and>
   fst (SubmitResult env_write_ok (I_response resp0) (Destroy conn0)) = Returns False \<and>
   logged (snd (SubmitResult env_write_ok (I_response resp0) (Destroy conn0))) = logged (Destroy conn0)"
proof -
  have q: "\<not> is_open (netConn (cn (Destroy conn0)))" "serverClosing (cn (Destroy conn0)) = 1"
    using Destroy_won_effects[of conn0] by (simp_all add: conn0_def newConn_def)
  show ?thesis
    using q by (simp add: SubmitResult_closed Write_closed fatal_effects logged_LogConnErr)
qed

subsection \<open>SubmitResult: the packet it writes\<close>

lemma from_be32_be32: "from_be32 (be32 w) = w"
proof (rule bit_word_eqI)
  fix n assume n: "n < LENGTH(32)"
  then consider "n < 8" | "8 \<le> n" "n < 16" | "16 \<le> n" "n < 24" | "24 \<le> n" "n < 32"
    by fastforce
  then show "bit (from_be32 (be32 w)) n = bit w n"
  proof cases
    case 1
    then show ?thesis by (auto simp: from_be32_def be32_def bit_simps)
  next
    case 2
    then show ?thesis by (auto simp: from_be32_def be32_def bit_simps)
  next
    case 3
    then show ?thesis by (auto simp: from_be32_def be32_def bit_simps)
  next
    case 4
    then show ?thesis by (auto simp: from_be32_def be32_def bit_simps)
  qed
qed

text \<open>What \<open>GetJob\<close> hands out when it returns a job.\<close>

lemma GetJob_Some:
  assumes "GetJob genv s0 = (Some (req, pool), s1)"
  shows "read_result genv = Inr (pkt req) \<and> reqBegin req = now_request genv \<and>
         connName req = name (cn s0) \<and> pool = selector (cn s0) (pkt req)"
proof (cases "is_open (netConn (cn s0))")
  case False
  then show ?thesis using assms
    by (simp add: GetJob_def conn_SetReadDeadline_def net_SetReadDeadline_def)
next
  case True
  show ?thesis
  proof (cases "deadline_result genv")
    case (Some e)
    then show ?thesis using assms True
      by (simp add: GetJob_def conn_SetReadDeadline_def net_SetReadDeadline_def)
  next
    case None
    then show ?thesis using assms True
      by (auto simp: GetJob_def SetReadDeadline_ok ReadFrom_def Let_def logRequest_def
          split: sum.splits if_splits)
  qed
qed

text \<open>
  Claim C2, as amended. Take a request that \<open>GetJob\<close> has handed out and a Result for it,
  that is, a Result to which the worker has copied the request's correlation ID and
  opcode (\<open>resp.id\<close> and \<open>resp.reqOpcode\<close>; the worker is outside the sources). When the
  write succeeds, the bytes that \<open>SubmitResult\<close> hands to the transport are the
  serialization of the packet with version 1.0 and with the correlation ID of the
  originating request, the one \<open>GetJob\<close> read from the wire (bytes 4 to 7 of the buffer
  read back as that ID). The originating opcode is not used for the header fields, nor
  for any other part of the packet: the length is the byte length of the Result's
  operation and the operation, opcode included, is the Result's. The originating opcode
  goes to the duration metric and to the last-write record of the statistics.
\<close>

theorem SubmitResult_packet:
  assumes job: "GetJob genv s0 = (Some (req, pool), s1)"
    and id: "resp_id resp = ID (Header (pkt req))"
    and opc: "resp_reqOpcode resp = Opcode (Operation (pkt req))"
    and op: "is_open (netConn (cn s))"
    and wr: "write_result env = Written"
    and run: "SubmitResult env (I_response resp) s = (r, s')"
  shows "read_result genv = Inr (pkt req) \<and>
    (\<exists>buf.
      MarshalBinary \<lparr>Header = \<lparr>MajorVers = 1, MinorVers = 0, Length = Bytes (resp_op resp),
                                ID = ID (Header (pkt req))\<rparr>,
                     Operation = resp_op resp\<rparr> = Inr buf \<and>
      written (netConn (cn s')) = written (netConn (cn s)) @ [buf] \<and>
      from_be32 (take 4 (drop 4 buf)) = ID (Header (pkt req)) \<and>
      buf ! 8 = Opcode (resp_op resp) \<and>
      ev_id (lastWrite (stats (cn s'))) = ID (Header (pkt req)) \<and>
      ev_opcode (lastWrite (stats (cn s'))) = Opcode (Operation (pkt req)) \<and>
      metrics s' = metrics s @
        [M_request_total_duration (Opcode (Operation (pkt req))) (resp_reqBegin resp) (resp_err resp)])"
proof -
  obtain buf where m: "MarshalBinary (response_packet resp) = Inr buf"
    by (simp add: MarshalBinary_def)
  have buf: "buf = [1, 0] @ be16 (Bytes (resp_op resp)) @ be32 (resp_id resp) @
                   [Opcode (resp_op resp)] @ Payload (resp_op resp)"
    using m by (auto simp: MarshalBinary_def response_packet_def)
  have bytes: "take 4 (drop 4 buf) = be32 (resp_id resp)" "buf ! 8 = Opcode (resp_op resp)"
    unfolding buf by (simp_all add: be16_def be32_def)
  note sr = SubmitResult_written[OF op wr m]
  have "written (netConn (cn s')) = written (netConn (cn s)) @ [buf]"
    using sr run by auto
  moreover have "ev_opcode (lastWrite (stats (cn s'))) = resp_reqOpcode resp"
    "ev_id (lastWrite (stats (cn s'))) = resp_id resp"
    using sr run by (auto simp: stats_run_write response_packet_def)
  moreover have "metrics s' = metrics s @
        [M_request_total_duration (resp_reqOpcode resp) (resp_reqBegin resp) (resp_err resp)]"
    using sr run by auto
  ultimately have "\<exists>buf.
      MarshalBinary \<lparr>Header = \<lparr>MajorVers = 1, MinorVers = 0, Length = Bytes (resp_op resp),
                                ID = resp_id resp\<rparr>,
                     Operation = resp_op resp\<rparr> = Inr buf \<and>
      written (netConn (cn s')) = written (netConn (cn s)) @ [buf] \<and>
      from_be32 (take 4 (drop 4 buf)) = resp_id resp \<and>
      buf ! 8 = Opcode (resp_op resp) \<and>
      ev_id (lastWrite (stats (cn s'))) = resp_id resp \<and>
      ev_opcode (lastWrite (stats (cn s'))) = resp_reqOpcode resp \<and>
      metrics s' = metrics s @
        [M_request_total_duration (resp_reqOpcode resp) (resp_reqBegin resp) (resp_err resp)]"
    using m bytes by (simp add: response_packet_def from_be32_be32)
  then show ?thesis using GetJob_Some[OF job] id opc by simp
qed

text \<open>The ping with correlation ID 7 and its answer.\<close>

theorem SubmitResult_packet_witness:
  "fst (GetJob env_read_ping conn0) = Some (req7, 0) \<and>
   resp_id resp0 = ID (Header (pkt req7)) \<and>
   resp_reqOpcode resp0 = Opcode (Operation (pkt req7)) \<and>
   is_open (netConn (cn conn0)) \<and> write_result env_write_ok = Written \<and>
   ID (Header (pkt req7)) = 7 \<and>
   written (netConn (cn (snd (SubmitResult env_write_ok (I_response resp0) conn0)))) =
     [[1, 0, 0, 0, 0, 0, 0, 7, 0xF0]]"
proof -
  have g: "fst (GetJob env_read_ping conn0) = Some (req7, 0)"
    by (simp add: GetJob_def env_read_ping_def conn0_def newConn_def conn_SetReadDeadline_def
        net_SetReadDeadline_def ReadFrom_def logRequest_def req7_def Let_def)
  have job: "GetJob env_read_ping conn0 = (Some (req7, 0), snd (GetJob env_read_ping conn0))"
    using g by (metis prod.collapse)
  have l1: "resp_id resp0 = ID (Header (pkt req7))"
    and l2: "resp_reqOpcode resp0 = Opcode (Operation (pkt req7))"
    and i7: "ID (Header (pkt req7)) = 7"
    by (simp_all add: resp0_def req7_def ping7_def)
  have h1: "is_open (netConn (cn conn0))" by (simp add: conn0_def newConn_def)
  have h2: "write_result env_write_ok = Written" by (simp add: env_write_ok_def)
  have run: "SubmitResult env_write_ok (I_response resp0) conn0 =
      (fst (SubmitResult env_write_ok (I_response resp0) conn0),
       snd (SubmitResult env_write_ok (I_response resp0) conn0))" by simp
  have m: "MarshalBinary \<lparr>Header = \<lparr>MajorVers = 1, MinorVers = 0, Length = Bytes (resp_op resp0),
                      ID = ID (Header (pkt req7))\<rparr>,
                     Operation = resp_op resp0\<rparr> = Inr [1, 0, 0, 0, 0, 0, 0, 7, 0xF0]"
    using marshal_resp0 l1 by (simp add: response_packet_def)
  have w0: "written (netConn (cn conn0)) = []" by (simp add: conn0_def newConn_def)
  from SubmitResult_packet[OF job l1 l2 h1 h2 run] m w0
  have "written (netConn (cn (snd (SubmitResult env_write_ok (I_response resp0) conn0)))) =
     [[1, 0, 0, 0, 0, 0, 0, 7, 0xF0]]" by auto
  with g l1 l2 i7 h1 h2 show ?thesis by blast
qed

text \<open>
  Claim C2 as stated fails for the opcode: the request had opcode 0xF1, the packet
  written carries the opcode 0xF0 of the Result's operation, and the same bytes are
  written whatever the opcode of the request was.
\<close>

theorem SubmitResult_opcode_counterexample:
  "resp_reqOpcode resp0 = 0xF1 \<and>
   Opcode (Operation (response_packet resp0)) = 0xF0 \<and>
   response_packet (resp0\<lparr>resp_reqOpcode := 0x01\<rparr>) = response_packet resp0 \<and>
   written (netConn (cn (snd (SubmitResult env_write_ok (I_response resp0) conn0)))) =
     [[1, 0, 0, 0, 0, 0, 0, 7, 0xF0]] \<and>
   written (netConn (cn (snd (SubmitResult env_write_ok (I_response (resp0\<lparr>resp_reqOpcode := 0x01\<rparr>)) conn0)))) =
     [[1, 0, 0, 0, 0, 0, 0, 7, 0xF0]]"
  by (simp add: SubmitResult_def MarshalBinary_def response_packet_def resp0_def be16_def be32_def
      Bytes_def conn_Write_def net_Write_def env_write_ok_def conn0_def newConn_def
      logRequestTotalDuration_def)

subsection \<open>SubmitResult on a closed connection\<close>

lemma SubmitResults_closed:
  "\<not> is_open (netConn (cn s)) \<Longrightarrow>
   fst (SubmitResults (map (\<lambda>(env, resp). (env, I_response resp)) calls) s) =
     replicate (length calls) (Returns False) \<and>
   \<not> is_open (netConn (cn (snd (SubmitResults (map (\<lambda>(env, resp). (env, I_response resp)) calls) s))))"
proof (induction calls arbitrary: s)
  case Nil
  then show ?case by simp
next
  case (Cons c calls)
  obtain env resp where c: "c = (env, resp)" by (cases c)
  have sr: "SubmitResult env (I_response resp) s = (Returns False, fatal errClosed s)"
    using Cons.prems by (rule SubmitResult_closed)
  have cl: "\<not> is_open (netConn (cn (fatal errClosed s)))" by (rule fatal_effects)
  from Cons.IH[OF cl] show ?case
    by (auto simp: c sr split: prod.splits)
qed

lemma GetJob_None_closed:
  assumes "quiescent s" "GetJob env s = (None, s')"
  shows "\<not> is_open (netConn (cn s'))"
proof (cases "conn_SetReadDeadline (deadline_result env) (now_deadline env + timeout (cn s)) s")
  case (Pair r s0)
  have q0: "quiescent s0"
    using Pair assms(1)
    by (auto simp: conn_SetReadDeadline_def net_SetReadDeadline_def quiescent_def
        split: if_splits option.splits)
  show ?thesis
  proof (cases r)
    case (Some err)
    then have "s' = fatal err s0" using Pair assms(2) by (simp add: GetJob_def fatal_def)
    then show ?thesis by (simp add: fatal_effects)
  next
    case None
    show ?thesis
    proof (cases "ReadFrom (read_result env) (netConn (cn s0))")
      case (Inl err)
      then have "s' = (if is_timeout err then Destroy s0 else fatal err s0)"
        using Pair None assms(2) by (auto simp: GetJob_def fatal_def split: if_splits)
      then show ?thesis using Destroy_effects(2)[OF q0] by (simp add: fatal_effects)
    next
      case (Inr p)
      then show ?thesis using Pair None assms(2) by (simp add: GetJob_def Let_def)
    qed
  qed
qed

lemma SubmitResult_False_closed:
  assumes "SubmitResult env (I_response resp) s = (Returns False, s')"
  shows "\<not> is_open (netConn (cn s'))"
proof -
  obtain buf where m: "MarshalBinary (response_packet resp) = Inr buf"
    by (simp add: MarshalBinary_def)
  obtain w s0 where w: "conn_Write (write_result env) buf s = (w, s0)" by force
  show ?thesis
  proof (cases w)
    case Written
    then show ?thesis using assms m w by (simp add: SubmitResult_def Let_def)
  next
    case (WriteError e)
    then have "s' = fatal e s0" using assms m w by (simp add: SubmitResult_def fatal_def)
    then show ?thesis by (simp add: fatal_effects)
  next
    case WriteBlocked
    then show ?thesis using assms m w by (simp add: SubmitResult_def)
  qed
qed

text \<open>
  Claim C8. Take a connection between calls on which \<open>Destroy\<close> has run, or \<open>GetJob\<close> has
  returned \<open>(nil, nil, false)\<close>, or \<open>SubmitResult\<close> has returned false. Its transport is
  closed, and every call of \<open>SubmitResult\<close> with a Result from then on returns false: it
  neither panics nor blocks, whatever the network would have done with the write.
\<close>

theorem SubmitResult_after_close:
  assumes q: "quiescent s0"
    and cause: "s = Destroy s0 \<or> (\<exists>env. GetJob env s0 = (None, s)) \<or>
                (\<exists>env resp. SubmitResult env (I_response resp) s0 = (Returns False, s))"
  shows "\<not> is_open (netConn (cn s)) \<and>
         fst (SubmitResults (map (\<lambda>(env, resp). (env, I_response resp)) calls) s) =
           replicate (length calls) (Returns False)"
proof -
  have "\<not> is_open (netConn (cn s))"
    using cause Destroy_effects(2)[OF q] GetJob_None_closed[OF q] SubmitResult_False_closed
    by blast
  then show ?thesis using SubmitResults_closed by blast
qed

text \<open>
  Three calls after \<open>Destroy\<close>, on a network that would accept the first write, stall
  on the second and fail the third.
\<close>

theorem SubmitResult_after_close_witness:
  "quiescent conn0 \<and>
   fst (SubmitResults (map (\<lambda>(env, resp). (env, I_response resp))
          [(env_write_ok, resp0), (env_write_stalls, resp0), (env_write_fails, resp0)]) (Destroy conn0)) =
     [Returns False, Returns False, Returns False]"
proof -
  have q: "quiescent conn0" by (simp add: conn0_def newConn_def quiescent_def)
  have c: "Destroy conn0 = Destroy conn0 \<or> (\<exists>env. GetJob env conn0 = (None, Destroy conn0)) \<or>
                (\<exists>env resp. SubmitResult env (I_response resp) conn0 = (Returns False, Destroy conn0))"
    by simp
  from SubmitResult_after_close[OF q c,
      of "[(env_write_ok, resp0), (env_write_stalls, resp0), (env_write_fails, resp0)]"]
  have "fst (SubmitResults (map (\<lambda>(env, resp). (env, I_response resp))
          [(env_write_ok, resp0), (env_write_stalls, resp0), (env_write_fails, resp0)]) (Destroy conn0)) =
     [Returns False, Returns False, Returns False]"
    by (simp add: numeral_3_eq_3)
  with q show ?thesis by blast
qed

section \<open>Properties of the client side\<close>

subsection \<open>Dial\<close>

lemma Dial_new_result:
  "Dial_new server w =
     (case dial_src w (dial_pos w) server of
        Some e \<Rightarrow> (Inl e, w\<lparr>cl := (cl w)\<lparr>Log := Log (cl w) @ [Dialing server]\<rparr>, dial_pos := Suc (dial_pos w)\<rparr>)
      | None \<Rightarrow>
          (Inr (next_obj w),
           w\<lparr>cl := (cl w)\<lparr>Log := Log (cl w) @ [Dialing server], conns := (conns (cl w))(server \<mapsto> next_obj w)\<rparr>,
             dial_pos := Suc (dial_pos w),
             objs := (objs w)(next_obj w := \<lparr>inner = dial_pos w, IsOpen = True\<rparr>),
             next_obj := Suc (next_obj w)\<rparr>))"
  by (simp add: Dial_new_def tls_Dial_def NewConn_def client_Log_Printf_def Let_def split: option.splits)

lemma Dial_success_state:
  assumes "Dial server w = (Inr p, w')"
  shows "Config (cl w') \<noteq> None \<and> conns (cl w') server = Some p \<and> IsOpen (objs w' p)"
  using assms
  by (auto simp: Dial_def Dial_new_result split: if_splits option.splits)

text \<open>
  Claim C9. Before the configuration is set (\<open>Config\<close> is nil) \<open>Dial\<close> fails at once with
  the configuration error and changes nothing. With a configuration: a cached connection
  that is open is returned as it is, without dialling. When the cached entry is no longer
  open, the entry is removed and a new connection is dialled; if the handshake succeeds,
  the new connection (a new object, open, wrapping the TLS connection just made) is cached
  under the address and returned, and if it fails the error is returned and the address
  has no entry. Whenever \<open>Dial\<close> has returned a connection, calling it again for the same
  address returns that same connection and changes nothing, so no second handshake is
  made.
\<close>

theorem Dial_cache:
  "(Config (cl w) = None \<longrightarrow>
      Dial server w =
        (Inl (errors_New ''gokeyless/client: TLS client has not yet been initialized with certificate and keyserver CA''), w)) \<and>
   (\<forall>p. Config (cl w) \<noteq> None \<and> conns (cl w) server = Some p \<and> IsOpen (objs w p) \<longrightarrow>
      Dial server w = (Inr p, w)) \<and>
   (\<forall>p. Config (cl w) \<noteq> None \<and> conns (cl w) server = Some p \<and> \<not> IsOpen (objs w p) \<and>
        dial_src w (dial_pos w) server = None \<longrightarrow>
      fst (Dial server w) = Inr (next_obj w) \<and>
      conns (cl (snd (Dial server w))) server = Some (next_obj w) \<and>
      IsOpen (objs (snd (Dial server w)) (next_obj w)) \<and>
      inner (objs (snd (Dial server w)) (next_obj w)) = dial_pos w \<and>
      dial_pos (snd (Dial server w)) = Suc (dial_pos w)) \<and>
   (\<forall>p e. Config (cl w) \<noteq> None \<and> conns (cl w) server = Some p \<and> \<not> IsOpen (objs w p) \<and>
        dial_src w (dial_pos w) server = Some e \<longrightarrow>
      fst (Dial server w) = Inl e \<and> conns (cl (snd (Dial server w))) server = None) \<and>
   (\<forall>p w'. Dial server w = (Inr p, w') \<longrightarrow> Dial server w' = (Inr p, w'))"
proof (intro conjI allI impI)
  fix p w' assume d: "Dial server w = (Inr p, w')"
  from Dial_success_state[OF d] show "Dial server w' = (Inr p, w')"
    by (auto simp: Dial_def)
qed (auto simp: Dial_def Dial_new_result)

text \<open>
  The first call for \<open>a:1\<close> dials, the second returns the cached connection (one
  handshake in all); and a client without configuration.
\<close>

theorem Dial_cache_witness:
  "Config (cl world_up) \<noteq> None \<and>
   fst (Dial ''a:1'' world_up) = Inr 0 \<and>
   Dial ''a:1'' (snd (Dial ''a:1'' world_up)) = (Inr 0, snd (Dial ''a:1'' world_up)) \<and>
   dial_pos (snd (Dial ''a:1'' (snd (Dial ''a:1'' world_up)))) = 1 \<and>
   fst (Dial ''a:1'' (world_up\<lparr>cl := (cl world_up)\<lparr>Config := None\<rparr>\<rparr>)) =
     Inl (errors_New ''gokeyless/client: TLS client has not yet been initialized with certificate and keyserver CA'')"
proof -
  have c: "Config (cl world_up) \<noteq> None" by (simp add: world_up_def world0_def)
  have f: "fst (Dial ''a:1'' world_up) = Inr 0"
    by (simp add: Dial_def Dial_new_result world_up_def world0_def)
  have dp: "dial_pos (snd (Dial ''a:1'' world_up)) = 1"
    by (simp add: Dial_def Dial_new_result world_up_def world0_def)
  have d: "Dial ''a:1'' world_up = (Inr 0, snd (Dial ''a:1'' world_up))"
    using f by (metis prod.collapse)
  note t = Dial_cache[of world_up "''a:1''"]
  from t d have again: "Dial ''a:1'' (snd (Dial ''a:1'' world_up)) = (Inr 0, snd (Dial ''a:1'' world_up))"
    by blast
  note t2 = Dial_cache[of "world_up\<lparr>cl := (cl world_up)\<lparr>Config := None\<rparr>\<rparr>" "''a:1''"]
  have n: "Config (cl (world_up\<lparr>cl := (cl world_up)\<lparr>Config := None\<rparr>\<rparr>)) = None" by simp
  from t2 n have cfg: "fst (Dial ''a:1'' (world_up\<lparr>cl := (cl world_up)\<lparr>Config := None\<rparr>\<rparr>)) =
     Inl (errors_New ''gokeyless/client: TLS client has not yet been initialized with certificate and keyserver CA'')"
    by simp
  show ?thesis using c f again dp cfg by simp
qed

subsection \<open>Slices\<close>

lemma length_slice_elems: "wf_slice h sl \<Longrightarrow> length (slice_elems h sl) = sl_len sl"
  by (auto simp: slice_elems_def wf_slice_def)

lemma wf_nil_slice: "wf_slice h nil_slice"
  by (simp add: wf_slice_def nil_slice_def)

lemma slice_index_elems:
  "wf_slice h sl \<Longrightarrow> i < sl_len sl \<Longrightarrow> slice_index h sl i = Some (slice_elems h sl ! i)"
  by (simp add: slice_index_def slice_elems_def wf_slice_def)

lemma go_append_elems:
  assumes wf: "wf_slice (arrays w) sl" and ap: "go_append sl xs w = (sl', w')"
  shows "slice_elems (arrays w') sl' = slice_elems (arrays w) sl @ xs \<and> wf_slice (arrays w') sl'"
proof (cases "sl_len sl + length xs \<le> sl_cap sl")
  case True
  let ?arr = "arrays w (sl_ptr sl)"
  let ?i = "sl_off sl + sl_len sl"
  have sl': "sl' = sl\<lparr>sl_len := sl_len sl + length xs\<rparr>"
    and w': "arrays w' = (arrays w)(sl_ptr sl := write_at ?arr ?i xs)"
    using ap True by (auto simp: go_append_def)
  have len: "?i + length xs \<le> length ?arr" using wf True by (simp add: wf_slice_def)
  have "drop (sl_off sl) (write_at ?arr ?i xs) =
        take (sl_len sl) (drop (sl_off sl) ?arr) @ xs @ drop (?i + length xs) ?arr"
    using len by (simp add: write_at_def drop_take)
  then have "take (sl_len sl + length xs) (drop (sl_off sl) (write_at ?arr ?i xs)) =
        take (sl_len sl) (drop (sl_off sl) ?arr) @ xs"
    using len by simp
  moreover have "length (write_at ?arr ?i xs) = length ?arr"
    using len by (simp add: write_at_def)
  ultimately show ?thesis
    using wf True by (simp add: sl' w' slice_elems_def wf_slice_def)
next
  case False
  then show ?thesis
    using ap wf
    by (auto simp: go_append_def Let_def slice_elems_def wf_slice_def)
qed

lemma go_append_frame:
  assumes "go_append sl xs w = (sl', w')"
  shows "cl w' = cl w \<and> objs w' = objs w \<and> next_obj w' = next_obj w \<and> stdlog w' = stdlog w \<and>
         rand_src w' = rand_src w \<and> rand_pos w' = rand_pos w \<and> dial_src w' = dial_src w \<and>
         dial_pos w' = dial_pos w \<and> growcap w' = growcap w"
  using assms by (auto simp: go_append_def Let_def split: if_splits)

lemma remove_at_elems:
  assumes wf: "wf_slice (arrays w) sl" and n: "n < sl_len sl"
  shows "\<exists>sl' w'. remove_at sl n w = Some (sl', w') \<and>
           slice_elems (arrays w') sl' =
             take n (slice_elems (arrays w) sl) @ drop (Suc n) (slice_elems (arrays w) sl) \<and>
           wf_slice (arrays w') sl' \<and>
           cl w' = cl w \<and> objs w' = objs w \<and> next_obj w' = next_obj w \<and> stdlog w' = stdlog w \<and>
           rand_src w' = rand_src w \<and> rand_pos w' = rand_pos w \<and> dial_src w' = dial_src w \<and>
           dial_pos w' = dial_pos w \<and> growcap w' = growcap w"
proof -
  let ?head = "sl\<lparr>sl_len := n\<rparr>"
  let ?rest = "\<lparr>sl_ptr = sl_ptr sl, sl_off = sl_off sl + (n + 1), sl_len = sl_len sl - (n + 1),
                sl_cap = sl_cap sl - (n + 1)\<rparr>"
  have f: "slice_to sl n = Some ?head" using wf n by (simp add: slice_to_def wf_slice_def)
  have b: "slice_from sl (n + 1) = Some ?rest" using n by (simp add: slice_from_def)
  obtain sl' w' where ap: "go_append ?head (slice_elems (arrays w) ?rest) w = (sl', w')" by force
  have r: "remove_at sl n w = Some (sl', w')" using f b ap by (simp add: remove_at_def)
  have wff: "wf_slice (arrays w) ?head" using wf n by (simp add: wf_slice_def)
  have ef: "slice_elems (arrays w) ?head = take n (slice_elems (arrays w) sl)"
    using n by (simp add: slice_elems_def min_def)
  have eb: "slice_elems (arrays w) ?rest = drop (Suc n) (slice_elems (arrays w) sl)"
    by (simp add: slice_elems_def drop_take add.commute)
  from go_append_elems[OF wff ap] go_append_frame[OF ap] r ef eb show ?thesis by simp
qed

subsection \<open>The loop of DialAny\<close>

lemma Dial_frame:
  assumes "Dial server w = (d, w')"
  shows "arrays w' = arrays w \<and> next_array w' = next_array w \<and> stdlog w' = stdlog w \<and>
         allServers (cl w') = allServers (cl w) \<and> Config (cl w') = Config (cl w) \<and>
         rand_src w' = rand_src w \<and> rand_pos w' = rand_pos w \<and> dial_src w' = dial_src w \<and>
         growcap w' = growcap w"
  using assms by (auto simp: Dial_def Dial_new_result split: if_splits option.splits)

lemma rand_Intn_pos:
  "0 < n \<Longrightarrow> rand_Intn n w = (Returns (rand_src w (rand_pos w) mod n), w\<lparr>rand_pos := Suc (rand_pos w)\<rparr>)"
  by (simp add: rand_Intn_def)

lemma mset_remove_nth:
  "n < length xs \<Longrightarrow> add_mset (xs ! n) (mset (take n xs @ drop (Suc n) xs)) = mset xs"
proof -
  assume "n < length xs"
  then have "xs = take n xs @ xs ! n # drop (Suc n) xs" by (rule id_take_nth_drop)
  then have "mset xs = mset (take n xs @ xs ! n # drop (Suc n) xs)" by simp
  then show ?thesis by simp
qed

text \<open>
  What the loop does to a slice that lies within its array: it never panics; if it ends
  with an error, it has logged one failed \<open>Dial\<close> for every element of the slice; if it
  ends with a connection, that connection is cached under an element of the slice and
  open, and the failed attempts logged before are fewer than the elements. The slice
  headers in the registry stay as they are.
\<close>

lemma dial_loop_spec:
  assumes "wf_slice (arrays w) servers" "dial_loop servers w = (r, w')"
  shows "allServers (cl w') = allServers (cl w) \<and>
         (\<exists>fl. stdlog w' = stdlog w @ fl \<and>
           (case r of
              Returns (Inl e) \<Rightarrow>
                e = errors_New ''couldn't dial any of the servers given'' \<and>
                mset (map failed_server fl) = mset (slice_elems (arrays w) servers)
            | Returns (Inr p) \<Rightarrow>
                (\<exists>a. a \<in> set (slice_elems (arrays w) servers) \<and> conns (cl w') a = Some p) \<and>
                IsOpen (objs w' p) \<and>
                mset (map failed_server fl) \<subset># mset (slice_elems (arrays w) servers)
            | Panics \<Rightarrow> False
            | Blocks \<Rightarrow> False))"
  using assms
proof (induction "sl_len servers" arbitrary: servers w r w')
  case 0
  then have "slice_elems (arrays w) servers = []"
    using length_slice_elems[of "arrays w" servers] by simp
  moreover have "r = Returns (Inl (errors_New ''couldn't dial any of the servers given''))" "w' = w"
    using 0 by (simp_all add: dial_loop.simps)
  ultimately show ?case by simp
next
  case (Suc m)
  let ?elems = "slice_elems (arrays w) servers"
  let ?n = "rand_src w (rand_pos w) mod sl_len servers"
  let ?w1 = "w\<lparr>rand_pos := Suc (rand_pos w)\<rparr>"
  have pos: "0 < sl_len servers" using Suc.hyps(2) by simp
  have n: "?n < sl_len servers" using pos by simp
  have len: "length ?elems = sl_len servers" using Suc.prems(1) by (rule length_slice_elems)
  have rnd: "rand_Intn (sl_len servers) w = (Returns ?n, ?w1)" using pos by (rule rand_Intn_pos)
  have idx: "slice_index (arrays ?w1) servers ?n = Some (?elems ! ?n)"
    using slice_index_elems[OF Suc.prems(1) n] by simp
  obtain d w2 where dial: "Dial (?elems ! ?n) ?w1 = (d, w2)" by force
  note fr = Dial_frame[OF dial]
  show ?case
  proof (cases d)
    case (Inr conn)
    have res: "r = Returns (Inr conn)" "w' = w2"
      using Suc.prems(2) pos rnd idx dial Inr by (simp_all add: dial_loop.simps)
    have "conns (cl w2) (?elems ! ?n) = Some conn" "IsOpen (objs w2 conn)"
      using Dial_success_state[of "?elems ! ?n" ?w1 conn w2] dial Inr by simp_all
    moreover have "?elems ! ?n \<in> set ?elems" using n len by simp
    moreover have "?elems \<noteq> []" using len pos by auto
    ultimately show ?thesis using res fr by (auto simp: subset_mset.zero_less_iff_neq_zero)
  next
    case (Inl err)
    let ?w2l = "log_Printf (Couldnt_dial (?elems ! ?n) err) w2"
    have wf2: "wf_slice (arrays ?w2l) servers"
      using Suc.prems(1) fr by (simp add: log_Printf_def)
    obtain servers' w3 where rem: "remove_at servers ?n ?w2l = Some (servers', w3)"
      and el: "slice_elems (arrays w3) servers' =
                 take ?n (slice_elems (arrays ?w2l) servers) @ drop (Suc ?n) (slice_elems (arrays ?w2l) servers)"
      and wf3: "wf_slice (arrays w3) servers'"
      and fr3: "cl w3 = cl ?w2l" "stdlog w3 = stdlog ?w2l"
      using remove_at_elems[OF wf2 n] by blast
    have el2: "slice_elems (arrays ?w2l) servers = ?elems" using fr by (simp add: log_Printf_def)
    have step: "dial_loop servers w = dial_loop servers' w3"
      using pos rnd idx dial Inl rem by (simp add: dial_loop.simps[of servers w])
    have m: "m = sl_len servers'"
      using length_slice_elems[OF wf3] el el2 len n Suc.hyps(2) by simp
    have run3: "dial_loop servers' w3 = (r, w')" using step Suc.prems(2) by simp
    note ih = Suc.hyps(1)[OF m wf3 run3]
    from ih obtain fl where fl: "stdlog w' = stdlog w3 @ fl"
      and cs: "(case r of
              Returns (Inl e) \<Rightarrow>
                e = errors_New ''couldn't dial any of the servers given'' \<and>
                mset (map failed_server fl) = mset (slice_elems (arrays w3) servers')
            | Returns (Inr p) \<Rightarrow>
                (\<exists>a. a \<in> set (slice_elems (arrays w3) servers') \<and> conns (cl w') a = Some p) \<and>
                IsOpen (objs w' p) \<and>
                mset (map failed_server fl) \<subset># mset (slice_elems (arrays w3) servers')
            | Panics \<Rightarrow> False
            | Blocks \<Rightarrow> False)"
      by blast
    have alls: "allServers (cl w') = allServers (cl w)"
      using ih fr3 fr by (simp add: log_Printf_def)
    have log: "stdlog w' = stdlog w @ (Couldnt_dial (?elems ! ?n) err # fl)"
      using fl fr3 fr by (simp add: log_Printf_def)
    have el3: "slice_elems (arrays w3) servers' = take ?n ?elems @ drop (Suc ?n) ?elems"
      using el el2 by simp
    have ms: "add_mset (?elems ! ?n) (mset (slice_elems (arrays w3) servers')) = mset ?elems"
      unfolding el3 using mset_remove_nth[of ?n ?elems] n len by simp
    have sub: "set (slice_elems (arrays w3) servers') \<subseteq> set ?elems"
      unfolding el3 by (auto dest: in_set_takeD in_set_dropD)
    have "case r of
              Returns (Inl e) \<Rightarrow>
                e = errors_New ''couldn't dial any of the servers given'' \<and>
                mset (map failed_server (Couldnt_dial (?elems ! ?n) err # fl)) = mset ?elems
            | Returns (Inr p) \<Rightarrow>
                (\<exists>a. a \<in> set ?elems \<and> conns (cl w') a = Some p) \<and>
                IsOpen (objs w' p) \<and>
                mset (map failed_server (Couldnt_dial (?elems ! ?n) err # fl)) \<subset># mset ?elems
            | Panics \<Rightarrow> False
            | Blocks \<Rightarrow> False"
    proof (cases r)
      case (Returns res)
      show ?thesis
      proof (cases res)
        case (Inl e)
        with Returns cs ms show ?thesis by simp
      next
        case (Inr p)
        with Returns cs have a: "\<exists>a. a \<in> set (slice_elems (arrays w3) servers') \<and> conns (cl w') a = Some p"
          and o: "IsOpen (objs w' p)"
          and s: "mset (map failed_server fl) \<subset># mset (slice_elems (arrays w3) servers')"
          by simp_all
        from s have "add_mset (?elems ! ?n) (mset (map failed_server fl)) \<subset>#
                     add_mset (?elems ! ?n) (mset (slice_elems (arrays w3) servers'))"
          by simp
        then have "mset (map failed_server (Couldnt_dial (?elems ! ?n) err # fl)) \<subset># mset ?elems"
          using ms by simp
        with a o sub Returns Inr show ?thesis by auto
      qed
    next
      case Panics
      with cs show ?thesis by simp
    next
      case Blocks
      with cs show ?thesis by simp
    qed
    with alls log show ?thesis by blast
  qed
qed

subsection \<open>DialAny\<close>


lemma existing_conns_empty:
  "existing_conns m xs = [] \<longleftrightarrow> (\<forall>a \<in> set xs. m a = None)"
  by (induction xs) (auto split: option.splits)

lemma DialAny_empty:
  assumes "wf_slice (arrays w) (servers_of k w)" "candidates k w = []"
  shows "DialAny k w = (Returns (Inl (errors_New ''no servers given'')), w)"
  using assms length_slice_elems[of "arrays w" "servers_of k w"]
  by (simp add: DialAny_def candidates_def)

lemma DialAny_existing:
  assumes wf: "wf_slice (arrays w) (servers_of k w)"
    and ne: "existing_conns (conns (cl w)) (candidates k w) \<noteq> []"
  shows "DialAny k w =
           (Returns (Inr (existing_conns (conns (cl w)) (candidates k w) !
                            (rand_src w (rand_pos w) mod length (existing_conns (conns (cl w)) (candidates k w))))),
            w\<lparr>rand_pos := Suc (rand_pos w)\<rparr>)"
proof -
  have "candidates k w \<noteq> []" using ne by auto
  then have "length (candidates k w) \<noteq> 0" by simp
  then have "sl_len (servers_of k w) \<noteq> 0"
    using length_slice_elems[OF wf] by (simp add: candidates_def)
  then show ?thesis using ne
    by (simp add: DialAny_def Let_def rand_Intn_def candidates_def)
qed

lemma DialAny_loop:
  assumes wf: "wf_slice (arrays w) (servers_of k w)"
    and ne: "candidates k w \<noteq> []"
    and ex: "existing_conns (conns (cl w)) (candidates k w) = []"
  shows "DialAny k w = dial_loop (servers_of k w) w"
proof -
  have "length (candidates k w) \<noteq> 0" using ne by simp
  then have "sl_len (servers_of k w) \<noteq> 0"
    using length_slice_elems[OF wf] by (simp add: candidates_def)
  then show ?thesis using ex
    by (simp add: DialAny_def Let_def candidates_def)
qed


lemma world_ab_eval:
  "world_ab = world0\<lparr>cl := (cl world0)\<lparr>Log := [Registering_key ''a:1'' keyF, Registering_key ''b:1'' keyF],
                                     allServers := [keyF \<mapsto> \<lparr>sl_ptr = 1, sl_off = 0, sl_len = 2, sl_cap = 2\<rparr>]\<rparr>,
                     arrays := (\<lambda>_. [])(0 := [''a:1''], 1 := [''a:1'', ''b:1'']),
                     next_array := 2\<rparr>"
  by (simp add: world_ab_def registerSKI_def client_Log_Printf_def servers_of_def go_append_def
      nil_slice_def world0_def Let_def slice_elems_def eval_nat_numeral)

lemma candidates_world_ab: "candidates keyF world_ab = [''a:1'', ''b:1'']"
  by (simp add: world_ab_eval candidates_def servers_of_def slice_elems_def world0_def)

lemma wf_world_ab: "wf_slice (arrays world_ab) (servers_of keyF world_ab)"
  by (simp add: world_ab_eval wf_slice_def servers_of_def world0_def)


text \<open>
  Claim C3 does not hold of the code. The local slice \<open>servers\<close> shares its backing
  array with the registry entry, and \<open>append(servers[:n], servers[n+1:]...)\<close> at
  conn.go:310 writes into that array. With \<open>a:1\<close> and \<open>b:1\<close> registered and neither
  reachable, \<open>a:1\<close> is drawn first; removing it moves \<open>b:1\<close> to the front of the
  shared array. Afterwards the registry still has two entries for the fingerprint, but
  both read \<open>b:1\<close>: \<open>a:1\<close> is lost.
\<close>

theorem DialAny_corrupts_registry:
  "candidates keyF world_ab = [''a:1'', ''b:1''] \<and>
   fst (DialAny keyF world_ab) = Returns (Inl (errors_New ''couldn't dial any of the servers given'')) \<and>
   candidates keyF (snd (DialAny keyF world_ab)) = [''b:1'', ''b:1'']"
  unfolding candidates_world_ab
  by (simp add: world_ab_eval DialAny_def servers_of_def slice_elems_def world0_def Let_def
      candidates_def rand_Intn_def slice_index_def Dial_def Dial_new_result log_Printf_def
      remove_at_def slice_to_def slice_from_def go_append_def write_at_def dial_loop.simps)

lemma world_cached_eval:
  "conns (cl world_cached) ''a:1'' = Some 0 \<and> conns (cl world_cached) ''b:1'' = Some 1 \<and>
   IsOpen (objs world_cached 0) \<and> \<not> IsOpen (objs world_cached 1) \<and>
   candidates keyF world_cached = [''a:1'', ''b:1''] \<and> rand_src world_cached = (\<lambda>_. 1) \<and>
   rand_pos world_cached = 0 \<and> dial_pos world_cached = 2"
  by (simp add: world_cached_def conn_breaks_def world_ab_eval Dial_def Dial_new_result world0_def
      candidates_def servers_of_def slice_elems_def)

text \<open>
  Claim C4 does not hold of the code. \<open>DialAny\<close> collects every cached connection of a
  registered server without reading \<open>IsOpen\<close> (conn.go:293), which \<open>Dial\<close> does read
  (conn.go:268). With an open connection cached for \<open>a:1\<close> and a broken one still
  cached for \<open>b:1\<close>, a draw of 1 returns the broken connection; nothing is dialled.
\<close>

theorem DialAny_returns_closed:
  "candidates keyF world_cached = [''a:1'', ''b:1''] \<and>
   conns (cl world_cached) ''a:1'' = Some 0 \<and> IsOpen (objs world_cached 0) \<and>
   conns (cl world_cached) ''b:1'' = Some 1 \<and> \<not> IsOpen (objs world_cached 1) \<and>
   fst (DialAny keyF world_cached) = Returns (Inr 1) \<and>
   \<not> IsOpen (objs (snd (DialAny keyF world_cached)) 1) \<and>
   dial_pos (snd (DialAny keyF world_cached)) = dial_pos world_cached"
proof -
  have wf: "wf_slice (arrays world_cached) (servers_of keyF world_cached)"
    by (simp add: world_cached_def conn_breaks_def world_ab_eval Dial_def Dial_new_result world0_def
        servers_of_def wf_slice_def)
  have ex: "existing_conns (conns (cl world_cached)) (candidates keyF world_cached) = [0, 1]"
    using world_cached_eval by simp
  have "DialAny keyF world_cached =
          (Returns (Inr 1), world_cached\<lparr>rand_pos := Suc (rand_pos world_cached)\<rparr>)"
    using DialAny_existing[OF wf] ex world_cached_eval by simp
  then show ?thesis using world_cached_eval by simp
qed

subsection \<open>RegisterPublicKey\<close>

lemma registerSKI_candidates:
  assumes wf: "wf_slice (arrays w) (servers_of k w)"
  shows "candidates k (registerSKI server k w) = candidates k w @ [server] \<and>
         wf_slice (arrays (registerSKI server k w)) (servers_of k (registerSKI server k w)) \<and>
         Log (cl (registerSKI server k w)) = Log (cl w) @ [Registering_key server k] \<and>
         conns (cl (registerSKI server k w)) = conns (cl w) \<and>
         (\<forall>k'. k' \<noteq> k \<longrightarrow> allServers (cl (registerSKI server k w)) k' = allServers (cl w) k')"
proof -
  let ?w1 = "client_Log_Printf (Registering_key server k) w"
  have s1: "servers_of k ?w1 = servers_of k w" "arrays ?w1 = arrays w"
    by (simp_all add: client_Log_Printf_def servers_of_def)
  obtain sl w2 where ap: "go_append (servers_of k ?w1) [server] ?w1 = (sl, w2)" by force
  have wf1: "wf_slice (arrays ?w1) (servers_of k ?w1)" using wf s1 by simp
  note e = go_append_elems[OF wf1 ap]
  note f = go_append_frame[OF ap]
  have r: "registerSKI server k w = w2\<lparr>cl := (cl w2)\<lparr>allServers := (allServers (cl w2))(k \<mapsto> sl)\<rparr>\<rparr>"
    using ap by (simp add: registerSKI_def Let_def)
  show ?thesis
    using e f s1 by (simp add: r candidates_def servers_of_def client_Log_Printf_def)
qed

text \<open>
  Claim C10. If computing the fingerprint fails, \<open>RegisterPublicKey\<close> returns that error
  and changes nothing. If it succeeds, then whatever \<open>GetDigest\<close> returns, a digest with
  an error or with nil, \<open>RegisterPublicKey\<close> registers the server under the fingerprint
  (the registered list is the old list with the server appended) and returns a handle
  with the key, the fingerprint and the digest that \<open>GetDigest\<close> returned: the error is
  dropped. So it returns an error exactly when computing the fingerprint fails.
\<close>

theorem RegisterPublicKey_result:
  "(\<forall>e. GetSKI pub = Inl e \<longrightarrow>
      RegisterPublicKey GetSKI GetDigest server pub w = (Inl e, w)) \<and>
   (\<forall>k d err. GetSKI pub = Inr k \<and> GetDigest pub = (d, err) \<longrightarrow>
      RegisterPublicKey GetSKI GetDigest server pub w =
        (Inr \<lparr>public = pub, ski = k, digest = d, client = The_client\<rparr>, registerSKI server k w) \<and>
      (wf_slice (arrays w) (servers_of k w) \<longrightarrow>
         candidates k (registerSKI server k w) = candidates k w @ [server])) \<and>
   ((\<exists>e. fst (RegisterPublicKey GetSKI GetDigest server pub w) = Inl e) \<longleftrightarrow>
      (\<exists>e. GetSKI pub = Inl e))"
proof (intro conjI allI impI)
  fix e assume "GetSKI pub = Inl e"
  then show "RegisterPublicKey GetSKI GetDigest server pub w = (Inl e, w)"
    by (simp add: RegisterPublicKey_def)
next
  fix k d err assume a: "GetSKI pub = Inr k \<and> GetDigest pub = (d, err)"
  then show "RegisterPublicKey GetSKI GetDigest server pub w =
      (Inr \<lparr>public = pub, ski = k, digest = d, client = The_client\<rparr>, registerSKI server k w)"
    by (simp add: RegisterPublicKey_def Let_def)
next
  fix k d err assume "wf_slice (arrays w) (servers_of k w)"
  then show "candidates k (registerSKI server k w) = candidates k w @ [server]"
    using registerSKI_candidates by blast
next
  show "(\<exists>e. fst (RegisterPublicKey GetSKI GetDigest server pub w) = Inl e) \<longleftrightarrow>
      (\<exists>e. GetSKI pub = Inl e)"
    by (cases "GetSKI pub") (auto simp: RegisterPublicKey_def Let_def split: prod.splits)
qed

text \<open>
  A key whose digest cannot be computed: the helper returns the zero digest and an
  error, and the handle carries the zero digest.
\<close>

theorem RegisterPublicKey_result_witness:
  "GetSKI_ok ''key'' = Inr keyF \<and>
   GetDigest_fails ''key'' = (nilDigest, Some (errors_New ''can't compute digest for non-RSA public key'')) \<and>
   wf_slice (arrays world0) (servers_of keyF world0) \<and>
   fst (RegisterPublicKey GetSKI_ok GetDigest_fails ''a:1'' ''key'' world0) =
     Inr \<lparr>public = ''key'', ski = keyF, digest = nilDigest, client = The_client\<rparr> \<and>
   candidates keyF world0 = [] \<and>
   candidates keyF (snd (RegisterPublicKey GetSKI_ok GetDigest_fails ''a:1'' ''key'' world0)) = [''a:1'']"
proof -
  have h1: "GetSKI_ok ''key'' = Inr keyF" by (simp add: GetSKI_ok_def)
  have h2: "GetDigest_fails ''key'' =
      (nilDigest, Some (errors_New ''can't compute digest for non-RSA public key''))"
    by (simp add: GetDigest_fails_def)
  have ns: "servers_of keyF world0 = nil_slice" by (simp add: servers_of_def world0_def)
  have h3: "wf_slice (arrays world0) (servers_of keyF world0)"
    unfolding ns by (rule wf_nil_slice)
  have c0: "candidates keyF world0 = []"
    by (simp add: candidates_def ns nil_slice_def slice_elems_def)
  note t = RegisterPublicKey_result[of GetSKI_ok "''key''" GetDigest_fails "''a:1''" world0]
  from t h1 h2 have r: "RegisterPublicKey GetSKI_ok GetDigest_fails ''a:1'' ''key'' world0 =
      (Inr \<lparr>public = ''key'', ski = keyF, digest = nilDigest, client = The_client\<rparr>, registerSKI ''a:1'' keyF world0)"
    by blast
  from t h1 h2 h3 have c: "candidates keyF (registerSKI ''a:1'' keyF world0) = candidates keyF world0 @ [''a:1'']"
    by blast
  show ?thesis using h1 h2 h3 c0 r c by simp
qed

subsection \<open>The registry stays within its arrays\<close>

text \<open>
  The condition on the registry that the theorems about \<open>DialAny\<close> and
  \<open>RegisterPublicKey\<close> ask for holds of a new client and is kept by every method of the
  client, so it holds whenever a method is called. \<open>DialAny\<close> never changes the slice
  headers of the registry, so the registered lists keep their lengths; it is the contents
  of their arrays that it may change.
\<close>

lemma wf_registry_servers_of: "wf_registry w \<Longrightarrow> wf_slice (arrays w) (servers_of k w)"
  by (auto simp: wf_registry_def servers_of_def wf_nil_slice split: option.splits)

lemma wf_registry_world0: "wf_registry world0"
  by (simp add: wf_registry_def world0_def)

lemma go_append_lengths:
  assumes wf: "wf_slice (arrays w) sl" and ap: "go_append sl xs w = (sl', w')"
  shows "next_array w \<le> next_array w' \<and>
         (\<forall>p. p < next_array w \<longrightarrow> length (arrays w' p) = length (arrays w p)) \<and>
         (sl_ptr sl' = sl_ptr sl \<and> next_array w' = next_array w \<and>
            (\<forall>p. length (arrays w' p) = length (arrays w p)) \<or>
          sl_ptr sl' = next_array w \<and> next_array w' = Suc (next_array w))"
proof (cases "sl_len sl + length xs \<le> sl_cap sl")
  case True
  have "sl_off sl + sl_len sl + length xs \<le> length (arrays w (sl_ptr sl))"
    using wf True by (simp add: wf_slice_def)
  then have "length (write_at (arrays w (sl_ptr sl)) (sl_off sl + sl_len sl) xs) =
             length (arrays w (sl_ptr sl))"
    by (simp add: write_at_def)
  then show ?thesis using ap True by (auto simp: go_append_def)
next
  case False
  then show ?thesis using ap by (auto simp: go_append_def Let_def)
qed

lemma wf_registry_registerSKI:
  assumes "wf_registry w"
  shows "wf_registry (registerSKI server k w)"
proof -
  let ?w1 = "client_Log_Printf (Registering_key server k) w"
  have s1: "servers_of k ?w1 = servers_of k w" "arrays ?w1 = arrays w" "next_array ?w1 = next_array w"
    "allServers (cl ?w1) = allServers (cl w)"
    by (simp_all add: client_Log_Printf_def servers_of_def)
  obtain sl w2 where ap: "go_append (servers_of k ?w1) [server] ?w1 = (sl, w2)" by force
  have wf1: "wf_slice (arrays ?w1) (servers_of k ?w1)"
    using assms s1 wf_registry_servers_of by simp
  note e = go_append_elems[OF wf1 ap]
  note f = go_append_frame[OF ap]
  note l = go_append_lengths[OF wf1 ap]
  have r: "registerSKI server k w = w2\<lparr>cl := (cl w2)\<lparr>allServers := (allServers (cl w2))(k \<mapsto> sl)\<rparr>\<rparr>"
    using ap by (simp add: registerSKI_def Let_def)
  have old: "\<And>k' sl'. allServers (cl w) k' = Some sl' \<Longrightarrow>
               wf_slice (arrays w2) sl' \<and> sl_ptr sl' < next_array w2"
  proof -
    fix k' sl' assume a: "allServers (cl w) k' = Some sl'"
    then have w: "wf_slice (arrays w) sl'" "sl_ptr sl' < next_array w"
      using assms by (auto simp: wf_registry_def)
    then have "length (arrays w2 (sl_ptr sl')) = length (arrays w (sl_ptr sl'))"
      using l s1 by simp
    then show "wf_slice (arrays w2) sl' \<and> sl_ptr sl' < next_array w2"
      using w l s1 by (simp add: wf_slice_def)
  qed
  have new: "sl_ptr sl < next_array w2"
  proof -
    have "sl_ptr (servers_of k w) < next_array w \<or> servers_of k w = nil_slice"
      using assms by (auto simp: wf_registry_def servers_of_def split: option.splits)
    moreover have "servers_of k w = nil_slice \<Longrightarrow> sl_ptr sl = next_array w \<and> next_array w2 = Suc (next_array w)"
      using ap s1 by (auto simp: go_append_def nil_slice_def Let_def)
    ultimately show ?thesis using l s1 by auto
  qed
  show ?thesis
    unfolding wf_registry_def r using e f old new s1 by auto
qed

lemma wf_registry_Dial:
  assumes "wf_registry w" "Dial server w = (d, w')"
  shows "wf_registry w'"
  using assms Dial_frame[OF assms(2)] by (simp add: wf_registry_def)

lemma remove_at_lengths:
  assumes wf: "wf_slice (arrays w) sl" and n: "n < sl_len sl"
    and rem: "remove_at sl n w = Some (sl', w')"
  shows "next_array w' = next_array w \<and> (\<forall>p. length (arrays w' p) = length (arrays w p))"
proof -
  let ?head = "sl\<lparr>sl_len := n\<rparr>"
  let ?rest = "\<lparr>sl_ptr = sl_ptr sl, sl_off = sl_off sl + (n + 1), sl_len = sl_len sl - (n + 1),
                sl_cap = sl_cap sl - (n + 1)\<rparr>"
  have f: "slice_to sl n = Some ?head" using wf n by (simp add: slice_to_def wf_slice_def)
  have b: "slice_from sl (n + 1) = Some ?rest" using n by (simp add: slice_from_def)
  have ap: "go_append ?head (slice_elems (arrays w) ?rest) w = (sl', w')"
    using rem f b by (simp add: remove_at_def)
  have lr: "length (slice_elems (arrays w) ?rest) \<le> sl_len sl - (n + 1)"
    by (simp add: slice_elems_def)
  have fits: "sl_len ?head + length (slice_elems (arrays w) ?rest) \<le> sl_cap ?head"
    using wf n lr by (auto simp: wf_slice_def)
  have "sl_off sl + n + length (slice_elems (arrays w) ?rest) \<le> length (arrays w (sl_ptr sl))"
    using wf n lr by (auto simp: wf_slice_def)
  then have "length (write_at (arrays w (sl_ptr sl)) (sl_off sl + n) (slice_elems (arrays w) ?rest)) =
             length (arrays w (sl_ptr sl))"
    by (simp add: write_at_def)
  then show ?thesis using ap fits by (auto simp: go_append_def)
qed

lemma dial_loop_lengths:
  assumes "wf_slice (arrays w) servers" "dial_loop servers w = (r, w')"
  shows "next_array w' = next_array w \<and> (\<forall>p. length (arrays w' p) = length (arrays w p))"
  using assms
proof (induction "sl_len servers" arbitrary: servers w)
  case 0
  then show ?case by (simp add: dial_loop.simps)
next
  case (Suc m)
  let ?elems = "slice_elems (arrays w) servers"
  let ?n = "rand_src w (rand_pos w) mod sl_len servers"
  let ?w1 = "w\<lparr>rand_pos := Suc (rand_pos w)\<rparr>"
  have pos: "0 < sl_len servers" using Suc.hyps(2) by simp
  have n: "?n < sl_len servers" using pos by simp
  have len: "length ?elems = sl_len servers" using Suc.prems(1) by (rule length_slice_elems)
  have rnd: "rand_Intn (sl_len servers) w = (Returns ?n, ?w1)" using pos by (rule rand_Intn_pos)
  have idx: "slice_index (arrays ?w1) servers ?n = Some (?elems ! ?n)"
    using slice_index_elems[OF Suc.prems(1) n] by simp
  obtain d w2 where dial: "Dial (?elems ! ?n) ?w1 = (d, w2)" by force
  note fr = Dial_frame[OF dial]
  show ?case
  proof (cases d)
    case (Inr conn)
    have "w' = w2"
      using Suc.prems(2) pos rnd idx dial Inr by (simp add: dial_loop.simps)
    then show ?thesis using fr by simp
  next
    case (Inl err)
    let ?w2l = "log_Printf (Couldnt_dial (?elems ! ?n) err) w2"
    have a2: "arrays ?w2l = arrays w" "next_array ?w2l = next_array w"
      using fr by (simp_all add: log_Printf_def)
    have wf2: "wf_slice (arrays ?w2l) servers" using Suc.prems(1) a2 by simp
    obtain servers' w3 where rem: "remove_at servers ?n ?w2l = Some (servers', w3)"
      and el: "slice_elems (arrays w3) servers' =
                 take ?n (slice_elems (arrays ?w2l) servers) @ drop (Suc ?n) (slice_elems (arrays ?w2l) servers)"
      and wf3: "wf_slice (arrays w3) servers'"
      using remove_at_elems[OF wf2 n] by blast
    note l3 = remove_at_lengths[OF wf2 n rem]
    have step: "dial_loop servers w = dial_loop servers' w3"
      using pos rnd idx dial Inl rem by (simp add: dial_loop.simps[of servers w])
    have m: "m = sl_len servers'"
      using length_slice_elems[OF wf3] el a2 len n Suc.hyps(2) by simp
    have run3: "dial_loop servers' w3 = (r, w')" using step Suc.prems(2) by simp
    from Suc.hyps(1)[OF m wf3 run3] l3 a2 show ?thesis by simp
  qed
qed

lemma DialAny_frame:
  assumes wf: "wf_registry w" and run: "DialAny k w = (r, w')"
  shows "allServers (cl w') = allServers (cl w) \<and> wf_registry w'"
proof -
  note wfk = wf_registry_servers_of[OF wf, of k]
  let ?c = "candidates k w"
  let ?ex = "existing_conns (conns (cl w)) ?c"
  consider (empty) "?c = []" | (cached) "?ex \<noteq> []" | (loop) "?c \<noteq> []" "?ex = []"
    by blast
  then show ?thesis
  proof cases
    case empty
    then show ?thesis using DialAny_empty[OF wfk] run wf by simp
  next
    case cached
    then have "w' = w\<lparr>rand_pos := Suc (rand_pos w)\<rparr>"
      using DialAny_existing[OF wfk] run by simp
    then show ?thesis using wf by (simp add: wf_registry_def)
  next
    case loop
    have dl: "dial_loop (servers_of k w) w = (r, w')"
      using DialAny_loop[OF wfk loop] run by simp
    from dial_loop_spec[OF wfk dl] have a: "allServers (cl w') = allServers (cl w)" by blast
    note l = dial_loop_lengths[OF wfk dl]
    show ?thesis using a l wf by (simp add: wf_registry_def wf_slice_def)
  qed
qed

lemma DialAny_keeps_length:
  assumes "wf_registry w"
  shows "length (candidates k' (snd (DialAny k w))) = length (candidates k' w)"
proof -
  from DialAny_frame[OF assms, of k "fst (DialAny k w)" "snd (DialAny k w)"]
  have a: "allServers (cl (snd (DialAny k w))) = allServers (cl w)"
    and w: "wf_registry (snd (DialAny k w))" by simp_all
  have "servers_of k' (snd (DialAny k w)) = servers_of k' w" using a by (simp add: servers_of_def)
  then show ?thesis
    using length_slice_elems[OF wf_registry_servers_of[OF w, of k']]
      length_slice_elems[OF wf_registry_servers_of[OF assms, of k']]
    by (simp add: candidates_def)
qed

end
